theory Spec2Isabelle
  imports Main "HOL-Library.Sublist"
begin

section \<open>HTML Knitter: the document tree and the run state\<close>

text \<open>
  The repository holds two variants of the program. \<^verbatim>\<open>src/main.go\<close> embeds
  stylesheets and rewrites the font references inside them; \<^verbatim>\<open>src/unnamed/part_001\<close>
  embeds stylesheets without touching their text and defines \<^verbatim>\<open>embedImage\<close>.
  \<^verbatim>\<open>processNode\<close>, \<^verbatim>\<open>isPreloadJS\<close>, \<^verbatim>\<open>isStylesheet\<close> and \<^verbatim>\<open>removeInlineJS\<close>
  are the same text in both files.

  A Go \<^verbatim>\<open>string\<close> and a \<^verbatim>\<open>[]byte\<close> are sequences of bytes; \<^typ>\<open>char\<close> is the
  8-bit byte, so both are modelled by \<^typ>\<open>string\<close>.
\<close>

subsection \<open>\<^verbatim>\<open>html.Node\<close>\<close>

datatype NodeType =
  ErrorNode | TextNode | DocumentNode | ElementNode | CommentNode | DoctypeNode | RawNode

record Attribute =
  Namespace :: string
  Key :: string
  Val :: string

text \<open>
  \<^verbatim>\<open>html.Node\<close> links a node to its parent, its first and last child and its two
  neighbours. The tree those pointers form is the datatype below: a node owns the
  ordered list of its children. The \<^verbatim>\<open>Parent\<close>, \<^verbatim>\<open>PrevSibling\<close> and \<^verbatim>\<open>NextSibling\<close>
  pointers of a node are its \<^emph>\<open>place\<close>: the siblings before it and the siblings after
  it in the parent's child list, or nothing when \<^verbatim>\<open>Parent\<close> is \<^verbatim>\<open>nil\<close>.
  (\<^verbatim>\<open>DataAtom\<close> and the node's \<^verbatim>\<open>Namespace\<close> are never read or written by the
  program and are left out.)
\<close>

datatype Node = Node (Type: NodeType) (Data: string) (Attr: "Attribute list")
  (Children: "Node list")

type_synonym place = "(Node list \<times> Node list) option"

subsection \<open>\<^verbatim>\<open>Config\<close>, warnings, and the world outside\<close>

record Config =
  inputFile :: string
  outputFile :: string
  removeJS :: bool
  baseDir :: string
  processedURLs :: "string \<rightharpoonup> bool"

text \<open>Reading a \<^verbatim>\<open>map[string]bool\<close> at a missing key gives \<^verbatim>\<open>false\<close>.\<close>

definition processed :: "Config \<Rightarrow> string \<Rightarrow> bool" where
  "processed config k = (case processedURLs config k of None \<Rightarrow> False | Some b \<Rightarrow> b)"

text \<open>
  Every \<^verbatim>\<open>log.Printf("Warning: ...")\<close> of the program, with the path or extension it
  prints (the operating system's error text is left out).
\<close>

datatype warning =
  CouldNotReadCSS string
  | CouldNotReadFont string
  | UnknownFontType string
  | CouldNotReadImage string

text \<open>
  The world holds what the program reads from its environment and what it leaves
  behind: the readable files with their contents (\<^verbatim>\<open>os.ReadFile\<close> fails on any other
  path), the table behind \<^verbatim>\<open>mime.TypeByExtension\<close> (empty string: unknown), the
  paths \<^verbatim>\<open>os.Create\<close> refuses, the paths read so far, the warnings logged so far and
  the files written.
\<close>

record World =
  files :: "string \<rightharpoonup> string"
  mimeTypes :: "string \<Rightarrow> string"
  uncreatable :: "string set"
  reads :: "string list"
  warnings :: "warning list"
  written :: "string \<rightharpoonup> string"

definition ReadFile :: "string \<Rightarrow> World \<Rightarrow> string option \<times> World" where
  "ReadFile path w = (files w path, w\<lparr>reads := reads w @ [path]\<rparr>)"

definition logWarning :: "warning \<Rightarrow> World \<Rightarrow> World" where
  "logWarning x w = w\<lparr>warnings := warnings w @ [x]\<rparr>"

datatype panic = NilPointerDereference

section \<open>The library functions the program calls\<close>

text \<open>
  These are not code of the repository: they are the Go standard library and
  \<^verbatim>\<open>golang.org/x/net/html\<close>, modelled from their documentation for Unix paths.
\<close>

subsection \<open>\<^verbatim>\<open>strings\<close>\<close>

definition HasPrefix :: "string \<Rightarrow> string \<Rightarrow> bool" where
  "HasPrefix s pre = (length pre \<le> length s \<and> take (length pre) s = pre)"

text \<open>
  \<^verbatim>\<open>strings.ToLower\<close> on the ASCII letters. (Go also maps letters beyond ASCII; none of
  them maps to a letter of the five extensions of \<^verbatim>\<open>fontMimeTypes\<close>, so the table
  lookup is the same.)
\<close>

definition lowerChar :: "char \<Rightarrow> char" where
  "lowerChar c =
     (if (65::nat) \<le> of_char c \<and> of_char c \<le> (90::nat) then char_of (of_char c + (32::nat))
      else c)"

definition ToLower :: "string \<Rightarrow> string" where
  "ToLower s = map lowerChar s"

text \<open>
  \<^verbatim>\<open>strings.Replace(s, old, new, -1)\<close>: the occurrences of \<^verbatim>\<open>old\<close> are found from
  the left, each search starting where the previous occurrence ended. After a match at the
  head of \<open>c # s\<close> the rest is \<open>drop (length old) (c # s)\<close>, written
  \<open>drop (length old - 1) s\<close>. For an empty \<^verbatim>\<open>old\<close> Go inserts \<^verbatim>\<open>new\<close> before every
  UTF-8 sequence and at the end; the model does so before every byte, which is the same on
  ASCII text (the program never passes an empty \<^verbatim>\<open>old\<close>: \<open>fontUrl_group_prefix\<close>).
\<close>

fun replaceFrom :: "string \<Rightarrow> string \<Rightarrow> string \<Rightarrow> string" where
  "replaceFrom [] old new = []"
| "replaceFrom (c # s) old new =
     (if HasPrefix (c # s) old then new @ replaceFrom (drop (length old - 1) s) old new
      else c # replaceFrom s old new)"

definition Replace :: "string \<Rightarrow> string \<Rightarrow> string \<Rightarrow> string" where
  "Replace s old new =
     (if old = new then s
      else if old = [] then new @ concat (map (\<lambda>c. c # new) s)
      else replaceFrom s old new)"

subsection \<open>\<^verbatim>\<open>path/filepath\<close>\<close>

text \<open>\<^verbatim>\<open>filepath.Ext\<close>: scan from the end to the last dot of the last path element.\<close>

fun extScan :: "string \<Rightarrow> string \<Rightarrow> string" where
  "extScan [] ext = []"
| "extScan (c # front) ext =
     (if c = CHR ''/'' then []
      else if c = CHR ''.'' then c # ext
      else extScan front (c # ext))"

definition Ext :: "string \<Rightarrow> string" where
  "Ext path = extScan (rev path) []"

fun splitSlash :: "string \<Rightarrow> string \<Rightarrow> string list" where
  "splitSlash [] cur = [rev cur]"
| "splitSlash (c # s) cur =
     (if c = CHR ''/'' then rev cur # splitSlash s [] else splitSlash s (c # cur))"

fun joinSlash :: "string list \<Rightarrow> string" where
  "joinSlash [] = []"
| "joinSlash [e] = e"
| "joinSlash (e # es) = e @ CHR ''/'' # joinSlash es"

text \<open>
  \<^verbatim>\<open>filepath.Clean\<close>: empty and \<^verbatim>\<open>.\<close> elements are dropped, a \<^verbatim>\<open>..\<close> removes the
  element before it (at the root it is dropped, at the start of a relative path it
  stays). \<open>out\<close> is the stack of kept elements, last first.
\<close>

fun cleanElems :: "bool \<Rightarrow> string list \<Rightarrow> string list \<Rightarrow> string list" where
  "cleanElems rooted out [] = rev out"
| "cleanElems rooted out (e # es) =
     (if e = [] \<or> e = ''.'' then cleanElems rooted out es
      else if e = ''..'' then
        (case out of
           [] \<Rightarrow> if rooted then cleanElems rooted [] es else cleanElems rooted [e] es
         | e' # below \<Rightarrow>
             if e' = ''..'' then cleanElems rooted (e # out) es
             else cleanElems rooted below es)
      else cleanElems rooted (e # out) es)"

definition Clean :: "string \<Rightarrow> string" where
  "Clean path =
     (let rooted = HasPrefix path ''/'';
          body = joinSlash (cleanElems rooted [] (splitSlash path []))
      in if rooted then CHR ''/'' # body
         else if body = [] then ''.''
         else body)"

text \<open>
  \<^verbatim>\<open>filepath.Join\<close> of two elements: the elements from the first non-empty one on are
  joined with a slash and cleaned; two empty elements give the empty string.
\<close>

definition Join :: "string \<Rightarrow> string \<Rightarrow> string" where
  "Join a b =
     (if a \<noteq> [] then Clean (a @ CHR ''/'' # b)
      else if b \<noteq> [] then Clean b
      else [])"

subsection \<open>\<^verbatim>\<open>encoding/base64\<close> and the data URI\<close>

definition encodeStd :: string where
  "encodeStd = ''ABCDEFGHIJKLMNOPQRSTUVWXYZabcdefghijklmnopqrstuvwxyz0123456789+/''"

definition enc6 :: "nat \<Rightarrow> char" where
  "enc6 i = encodeStd ! (i mod 64)"

text \<open>
  \<^verbatim>\<open>base64.StdEncoding.EncodeToString\<close> (RFC 4648, section 4, with padding, no line
  breaks). Three bytes are the 24-bit number \<open>val\<close>; shifting right by \<open>k\<close> bits is
  \<open>div 2 ^ k\<close> and masking with \<^verbatim>\<open>0x3F\<close> is \<open>mod 64\<close>, which \<open>enc6\<close> applies.
\<close>

fun EncodeToString :: "string \<Rightarrow> string" where
  "EncodeToString [] = []"
| "EncodeToString [b0] =
     (let val = of_char b0 * (65536::nat)
      in [enc6 (val div 262144), enc6 (val div 4096), CHR ''='', CHR ''=''])"
| "EncodeToString [b0, b1] =
     (let val = of_char b0 * 65536 + of_char b1 * (256::nat)
      in [enc6 (val div 262144), enc6 (val div 4096), enc6 (val div 64), CHR ''=''])"
| "EncodeToString (b0 # b1 # b2 # rest) =
     (let val = of_char b0 * 65536 + of_char b1 * 256 + (of_char b2 :: nat)
      in enc6 (val div 262144) # enc6 (val div 4096) # enc6 (val div 64) # enc6 val
         # EncodeToString rest)"

text \<open>\<^verbatim>\<open>fmt.Sprintf("data:%s;base64,%s", mimeType, b64Content)\<close>\<close>

definition dataURL :: "string \<Rightarrow> string \<Rightarrow> string" where
  "dataURL mimeType b64Content = ''data:'' @ mimeType @ '';base64,'' @ b64Content"

text \<open>
  The decoder of RFC 4648 that the data-URI property is stated with (the program never
  decodes): four characters of the alphabet give three bytes; the padding character is
  accepted in the last group only.
\<close>

fun indexOf :: "char \<Rightarrow> string \<Rightarrow> nat option" where
  "indexOf c [] = None"
| "indexOf c (x # xs) = (if c = x then Some 0 else map_option Suc (indexOf c xs))"

definition dec6 :: "char \<Rightarrow> nat option" where
  "dec6 c = indexOf c encodeStd"

definition byteOf :: "nat \<Rightarrow> char" where
  "byteOf v = char_of (v mod 256)"

fun DecodeString :: "string \<Rightarrow> string option" where
  "DecodeString [] = Some []"
| "DecodeString [c0, c1, c2, c3] =
     (case (dec6 c0, dec6 c1) of
        (Some v0, Some v1) \<Rightarrow>
          (if c2 = CHR ''='' then
             (if c3 = CHR ''='' \<and> v1 mod 16 = 0
              then Some [byteOf ((v0 * 262144 + v1 * 4096) div 65536)] else None)
           else
             (case dec6 c2 of
                None \<Rightarrow> None
              | Some v2 \<Rightarrow>
                  (if c3 = CHR ''='' then
                     (if v2 mod 4 = 0
                      then (let val = v0 * 262144 + v1 * 4096 + v2 * 64
                            in Some [byteOf (val div 65536), byteOf (val div 256)])
                      else None)
                   else
                     (case dec6 c3 of
                        None \<Rightarrow> None
                      | Some v3 \<Rightarrow>
                          (let val = v0 * 262144 + v1 * 4096 + v2 * 64 + v3
                           in Some [byteOf (val div 65536), byteOf (val div 256),
                                    byteOf val])))))
      | _ \<Rightarrow> None)"
| "DecodeString (c0 # c1 # c2 # c3 # rest) =
     (case (dec6 c0, dec6 c1, dec6 c2, dec6 c3) of
        (Some v0, Some v1, Some v2, Some v3) \<Rightarrow>
          (let val = v0 * 262144 + v1 * 4096 + v2 * 64 + v3
           in map_option (\<lambda>bs. byteOf (val div 65536) # byteOf (val div 256) # byteOf val # bs)
                (DecodeString rest))
      | _ \<Rightarrow> None)"
| "DecodeString _ = None"

subsection \<open>\<^verbatim>\<open>regexp\<close>: the two patterns of \<^verbatim>\<open>main.go\<close>\<close>

text \<open>
  \<^verbatim>\<open>fontFaceRegex = @font-face\s*{[^}]*}\<close>. A match at the head of \<open>s\<close>: the
  literal, all the white space that follows (\<^verbatim>\<open>\s\<close> is tab, newline, form feed,
  carriage return, space), an opening brace, all bytes up to the next closing brace, and
  that brace. Both stars are followed by a character they cannot match, so taking fewer
  never helps and the match is unique; its length is returned.
\<close>

definition isSpace :: "char \<Rightarrow> bool" where
  "isSpace c = (c = CHR 0x09 \<or> c = CHR 0x0A \<or> c = CHR 0x0C \<or> c = CHR 0x0D \<or> c = CHR '' '')"

definition matchFontFace :: "string \<Rightarrow> nat option" where
  "matchFontFace s =
     (if HasPrefix s ''@font-face'' then
        (let s1 = drop 10 s;
             ws = takeWhile isSpace s1;
             s2 = drop (length ws) s1
         in case s2 of
              [] \<Rightarrow> None
            | c # s3 \<Rightarrow>
                if c = CHR ''{'' then
                  (let body = takeWhile (\<lambda>c. c \<noteq> CHR ''}'') s3;
                       s4 = drop (length body) s3
                   in case s4 of
                        [] \<Rightarrow> None
                      | _ # _ \<Rightarrow> Some (10 + length ws + 1 + length body + 1))
                else None)
      else None)"

text \<open>
  \<^verbatim>\<open>fontFaceRegex.FindAllString(cssString, -1)\<close>: the leftmost match, then the
  leftmost match in what follows it, and so on. A match has at least twelve bytes, so
  what follows a match of length \<open>n\<close> at the head of \<open>c # s\<close> is \<open>drop (n - 1) s\<close>.
\<close>

fun fontFaceFindAll :: "string \<Rightarrow> string list" where
  "fontFaceFindAll [] = []"
| "fontFaceFindAll (c # s) =
     (case matchFontFace (c # s) of
        Some n \<Rightarrow> take n (c # s) # fontFaceFindAll (drop (n - 1) s)
      | None \<Rightarrow> fontFaceFindAll s)"

text \<open>
  \<^verbatim>\<open>fontUrlRegex = url\(['"]?(/_next/[^'"()]+)['"]?\)\<close>. A match at the head of
  \<open>s\<close>: the literal \<^verbatim>\<open>url(\<close>, a quote if there is one, \<^verbatim>\<open>/_next/\<close>, the longest
  non-empty run of bytes that are no quote and no parenthesis, a quote if there is one,
  and the closing parenthesis. The group is \<^verbatim>\<open>/_next/\<close> with the run. (A quote that
  is present must be taken, since \<^verbatim>\<open>/_next/\<close> and \<^verbatim>\<open>)\<close> do not start with one; a
  shorter run would be followed by a byte of the run, which is neither a quote nor the
  closing parenthesis.) The result is the length of the match and the group.
\<close>

definition isQuote :: "char \<Rightarrow> bool" where
  "isQuote c = (c = CHR 0x27 \<or> c = CHR 0x22)"

definition isPathChar :: "char \<Rightarrow> bool" where
  "isPathChar c = (\<not> isQuote c \<and> c \<noteq> CHR ''('' \<and> c \<noteq> CHR '')'')"

definition optQuote :: "string \<Rightarrow> nat" where
  "optQuote s = (case s of [] \<Rightarrow> 0 | c # _ \<Rightarrow> if isQuote c then 1 else 0)"

definition matchFontUrl :: "string \<Rightarrow> (nat \<times> string) option" where
  "matchFontUrl s =
     (if HasPrefix s ''url('' then
        (let s1 = drop 4 s;
             q1 = optQuote s1;
             s2 = drop q1 s1
         in if HasPrefix s2 ''/_next/'' then
              (let s3 = drop 7 s2;
                   run = takeWhile isPathChar s3;
                   s4 = drop (length run) s3;
                   q2 = optQuote s4;
                   s5 = drop q2 s4
               in if run = [] then None
                  else if HasPrefix s5 '')''
                  then Some (4 + q1 + 7 + length run + q2 + 1, ''/_next/'' @ run)
                  else None)
            else None)
      else None)"

text \<open>
  \<^verbatim>\<open>fontUrlRegex.FindAllStringSubmatch(fontFace, -1)\<close>: each match is the slice of the
  whole match and the group.
\<close>

fun fontUrlFindAll :: "string \<Rightarrow> string list list" where
  "fontUrlFindAll [] = []"
| "fontUrlFindAll (c # s) =
     (case matchFontUrl (c # s) of
        Some (n, g) \<Rightarrow> [take n (c # s), g] # fontUrlFindAll (drop (n - 1) s)
      | None \<Rightarrow> fontUrlFindAll s)"

subsection \<open>\<^verbatim>\<open>html.Node\<close>: \<^verbatim>\<open>RemoveChild\<close> and \<^verbatim>\<open>InsertBefore\<close>\<close>

text \<open>
  Both are called on \<^verbatim>\<open>n.Parent\<close> with the node \<^verbatim>\<open>n\<close> itself, whose place is
  \<open>(before, after)\<close>. \<^verbatim>\<open>n.Parent.RemoveChild(n)\<close> leaves the parent with the children
  \<open>before @ after\<close> and \<^verbatim>\<open>n\<close> without a parent; the result is that child list, split
  where \<^verbatim>\<open>n\<close> was. \<^verbatim>\<open>n.Parent.InsertBefore(new, n)\<close> puts \<^verbatim>\<open>new\<close> right before
  \<^verbatim>\<open>n\<close>; the result is the new place of \<^verbatim>\<open>n\<close>. On a \<^verbatim>\<open>nil\<close> parent the calls
  read a field of \<^verbatim>\<open>nil\<close>: the program panics.
\<close>

definition RemoveChild :: "place \<Rightarrow> panic + (Node list \<times> Node list)" where
  "RemoveChild p = (case p of None \<Rightarrow> Inl NilPointerDereference | Some (l, r) \<Rightarrow> Inr (l, r))"

definition InsertBefore :: "place \<Rightarrow> Node \<Rightarrow> panic + place" where
  "InsertBefore p new =
     (case p of None \<Rightarrow> Inl NilPointerDereference | Some (l, r) \<Rightarrow> Inr (Some (l @ [new], r)))"

section \<open>\<^verbatim>\<open>removeInlineJS\<close>\<close>

definition jsAttributes :: "string list" where
  "jsAttributes =
    [''onclick'', ''onload'', ''onunload'', ''onchange'', ''onsubmit'', ''onreset'',
     ''onselect'', ''onblur'', ''onfocus'', ''onkeydown'', ''onkeypress'', ''onkeyup'',
     ''onmouseover'', ''onmouseout'', ''onmousedown'', ''onmouseup'', ''onmousemove'']"

text \<open>The inner loop: \<^verbatim>\<open>isJSAttr\<close> becomes true at the first equal name (\<^verbatim>\<open>break\<close>).\<close>

fun isJSAttr :: "string \<Rightarrow> string list \<Rightarrow> bool" where
  "isJSAttr k [] = False"
| "isJSAttr k (jsAttr # rest) = (if k = jsAttr then True else isJSAttr k rest)"

text \<open>The outer loop over \<^verbatim>\<open>n.Attr\<close>, appending to \<^verbatim>\<open>newAttrs\<close>.\<close>

fun newAttrsLoop :: "Attribute list \<Rightarrow> Attribute list \<Rightarrow> Attribute list" where
  "newAttrsLoop [] newAttrs = newAttrs"
| "newAttrsLoop (attr # rest) newAttrs =
     newAttrsLoop rest
       (if \<not> isJSAttr (Key attr) jsAttributes then newAttrs @ [attr] else newAttrs)"

definition removeInlineJS :: "Node \<Rightarrow> Node" where
  "removeInlineJS n = Node (Type n) (Data n) (newAttrsLoop (Attr n) []) (Children n)"

section \<open>\<^verbatim>\<open>isPreloadJS\<close> and \<^verbatim>\<open>isStylesheet\<close>\<close>

text \<open>The loop of \<^verbatim>\<open>isPreloadJS\<close>: a later \<^verbatim>\<open>rel\<close> or \<^verbatim>\<open>as\<close> overwrites an earlier one.\<close>

fun relAsLoop :: "Attribute list \<Rightarrow> string \<Rightarrow> string \<Rightarrow> string \<times> string" where
  "relAsLoop [] rel as = (rel, as)"
| "relAsLoop (a # rest) rel as =
     (if Key a = ''rel'' then relAsLoop rest (Val a) as
      else if Key a = ''as'' then relAsLoop rest rel (Val a)
      else relAsLoop rest rel as)"

definition isPreloadJS :: "Node \<Rightarrow> bool" where
  "isPreloadJS n = (case relAsLoop (Attr n) [] [] of (rel, as) \<Rightarrow> rel = ''preload'' \<and> as = ''script'')"

fun stylesheetLoop :: "Attribute list \<Rightarrow> bool" where
  "stylesheetLoop [] = False"
| "stylesheetLoop (a # rest) =
     (if Key a = ''rel'' \<and> Val a = ''stylesheet'' then True else stylesheetLoop rest)"

definition isStylesheet :: "Node \<Rightarrow> bool" where
  "isStylesheet n = stylesheetLoop (Attr n)"

section \<open>\<^verbatim>\<open>embedCSS\<close>\<close>

text \<open>
  The first loop of \<^verbatim>\<open>embedCSS\<close> and of \<^verbatim>\<open>embedImage\<close>: the value of the first
  attribute with the key (\<^verbatim>\<open>break\<close>), the empty string when there is none.
\<close>

fun firstVal :: "string \<Rightarrow> Attribute list \<Rightarrow> string" where
  "firstVal k [] = []"
| "firstVal k (a # rest) = (if Key a = k then Val a else firstVal k rest)"

definition fontMimeTypes :: "string \<rightharpoonup> string" where
  "fontMimeTypes = map_of
     [(''.woff2'', ''font/woff2''),
      (''.woff'', ''font/woff''),
      (''.ttf'', ''font/ttf''),
      (''.eot'', ''application/vnd.ms-fontobject''),
      (''.otf'', ''font/otf'')]"

text \<open>
  The body of the inner loop of \<^verbatim>\<open>embedCSS\<close> in \<^verbatim>\<open>main.go\<close> (lines 169 to 194), for
  one match \<^verbatim>\<open>url\<close> and the CSS text as it stands.
\<close>

definition embedFont :: "Config \<Rightarrow> string list \<Rightarrow> string \<Rightarrow> World \<Rightarrow> string \<times> World" where
  "embedFont config url cssString w =
     (if length url \<ge> 2 then
        (let fontPath = url ! 1;
             fullPath = Join (baseDir config) fontPath
         in case ReadFile fullPath w of
              (None, w1) \<Rightarrow> (cssString, logWarning (CouldNotReadFont fullPath) w1)
            | (Some fontContent, w1) \<Rightarrow>
                (let ext = ToLower (Ext fontPath)
                 in case fontMimeTypes ext of
                      None \<Rightarrow> (cssString, logWarning (UnknownFontType ext) w1)
                    | Some mimeType \<Rightarrow>
                        (let b64Content = EncodeToString fontContent;
                             dataURL = dataURL mimeType b64Content
                         in (Replace cssString (url ! 1) dataURL, w1))))
      else (cssString, w))"

text \<open>\<^verbatim>\<open>for _, url := range urls\<close>\<close>

fun urlsLoop :: "Config \<Rightarrow> string list list \<Rightarrow> string \<Rightarrow> World \<Rightarrow> string \<times> World" where
  "urlsLoop config [] cssString w = (cssString, w)"
| "urlsLoop config (url # rest) cssString w =
     (case embedFont config url cssString w of
        (cssString', w') \<Rightarrow> urlsLoop config rest cssString' w')"

text \<open>\<^verbatim>\<open>for _, fontFace := range fontFaces\<close>\<close>

fun fontFacesLoop :: "Config \<Rightarrow> string list \<Rightarrow> string \<Rightarrow> World \<Rightarrow> string \<times> World" where
  "fontFacesLoop config [] cssString w = (cssString, w)"
| "fontFacesLoop config (fontFace # rest) cssString w =
     (case urlsLoop config (fontUrlFindAll fontFace) cssString w of
        (cssString', w') \<Rightarrow> fontFacesLoop config rest cssString' w')"

text \<open>
  Lines 162 to 196 of \<^verbatim>\<open>main.go\<close>, the font-reference rewriter: the blocks are found
  in the text as read, the replacements are made in the text as it stands.
\<close>

definition rewriteFontFaces :: "Config \<Rightarrow> string \<Rightarrow> World \<Rightarrow> string \<times> World" where
  "rewriteFontFaces config cssString w =
     fontFacesLoop config (fontFaceFindAll cssString) cssString w"

text \<open>The style node with its text child (\<^verbatim>\<open>AppendChild\<close> on a node without children).\<close>

definition styleNode :: "string \<Rightarrow> Node" where
  "styleNode css =
     Node ElementNode ''style'' [\<lparr>Namespace = [], Key = ''type'', Val = ''text/css''\<rparr>]
       [Node TextNode css [] []]"

text \<open>
  What a call did to the place of the visited node \<^verbatim>\<open>n\<close>: it is where it was, or it has
  no parent any more and its former parent has the children \<open>l @ r\<close>, \<open>l\<close> being those
  before the place where \<^verbatim>\<open>n\<close> was.
\<close>

datatype outcome = InPlace | Detached "Node list" "Node list"

text \<open>\<^verbatim>\<open>n.Parent.InsertBefore(styleNode, n); n.Parent.RemoveChild(n)\<close>\<close>

definition replaceNode :: "place \<Rightarrow> Node \<Rightarrow> panic + outcome" where
  "replaceNode p new =
     (case InsertBefore p new of
        Inl e \<Rightarrow> Inl e
      | Inr p' \<Rightarrow>
          (case RemoveChild p' of
             Inl e \<Rightarrow> Inl e
           | Inr (l, r) \<Rightarrow> Inr (Detached l r)))"

text \<open>\<^verbatim>\<open>embedCSS\<close> of \<^verbatim>\<open>main.go\<close>.\<close>

definition embedCSS :: "Config \<Rightarrow> place \<Rightarrow> Node \<Rightarrow> World \<Rightarrow> panic + (outcome \<times> World)" where
  "embedCSS config p n w =
     (let href = firstVal ''href'' (Attr n)
      in if href = [] then Inr (InPlace, w)
         else
           (let href = (if HasPrefix href ''/_next'' then Join (baseDir config) href else href)
            in case ReadFile href w of
                 (None, w1) \<Rightarrow> Inr (InPlace, logWarning (CouldNotReadCSS href) w1)
               | (Some cssContent, w1) \<Rightarrow>
                   (case rewriteFontFaces config cssContent w1 of
                      (cssString, w2) \<Rightarrow>
                        (case replaceNode p (styleNode cssString) of
                           Inl e \<Rightarrow> Inl e
                         | Inr oc \<Rightarrow> Inr (oc, w2)))))"

text \<open>\<^verbatim>\<open>embedCSS\<close> of \<^verbatim>\<open>part_001\<close>: the text child is \<^verbatim>\<open>string(cssContent)\<close>.\<close>

definition embedCSS_part_001 ::
  "Config \<Rightarrow> place \<Rightarrow> Node \<Rightarrow> World \<Rightarrow> panic + (outcome \<times> World)" where
  "embedCSS_part_001 config p n w =
     (let href = firstVal ''href'' (Attr n)
      in if href = [] then Inr (InPlace, w)
         else
           (let href = (if HasPrefix href ''/_next'' then Join (baseDir config) href else href)
            in case ReadFile href w of
                 (None, w1) \<Rightarrow> Inr (InPlace, logWarning (CouldNotReadCSS href) w1)
               | (Some cssContent, w1) \<Rightarrow>
                   (case replaceNode p (styleNode cssContent) of
                      Inl e \<Rightarrow> Inl e
                    | Inr oc \<Rightarrow> Inr (oc, w1))))"

section \<open>\<^verbatim>\<open>embedImage\<close> (\<^verbatim>\<open>part_001\<close>)\<close>

text \<open>The last loop: the first \<^verbatim>\<open>src\<close> attribute gets the value (\<^verbatim>\<open>break\<close>).\<close>

fun setFirstVal :: "string \<Rightarrow> string \<Rightarrow> Attribute list \<Rightarrow> Attribute list" where
  "setFirstVal k v [] = []"
| "setFirstVal k v (a # rest) =
     (if Key a = k then a\<lparr>Val := v\<rparr> # rest else a # setFirstVal k v rest)"

definition embedImage :: "Config \<Rightarrow> Node \<Rightarrow> World \<Rightarrow> (Config \<times> Node) \<times> World" where
  "embedImage config n w =
     (let src = firstVal ''src'' (Attr n)
      in if src = [] \<or> processed config src then ((config, n), w)
         else
           (let src = (if HasPrefix src ''/_next'' then Join (baseDir config) src else src)
            in case ReadFile src w of
                 (None, w1) \<Rightarrow> ((config, n), logWarning (CouldNotReadImage src) w1)
               | (Some imgContent, w1) \<Rightarrow>
                   (let mimeType = mimeTypes w1 (Ext src);
                        mimeType = (if mimeType = [] then ''image/png'' else mimeType);
                        b64Content = EncodeToString imgContent;
                        dataURL = dataURL mimeType b64Content
                    in ((config\<lparr>processedURLs := (processedURLs config)(src \<mapsto> True)\<rparr>,
                         Node (Type n) (Data n) (setFirstVal ''src'' dataURL (Attr n))
                           (Children n)),
                        w1))))"

section \<open>\<^verbatim>\<open>processNode\<close> and \<^verbatim>\<open>processHTML\<close> (\<^verbatim>\<open>main.go\<close>)\<close>

text \<open>
  The \<^verbatim>\<open>switch n.Data\<close> of \<^verbatim>\<open>processNode\<close>: the node was detached and the function
  returns, or the function goes on with the node where the switch left it.
\<close>

datatype flow = Returned "Node list" "Node list" | Continue outcome

definition tagSwitch :: "Config \<Rightarrow> place \<Rightarrow> Node \<Rightarrow> World \<Rightarrow> panic + (flow \<times> World)" where
  "tagSwitch config p n w =
     (if Data n = ''script'' then
        (if removeJS config then
           (case RemoveChild p of Inl e \<Rightarrow> Inl e | Inr (l, r) \<Rightarrow> Inr (Returned l r, w))
         else Inr (Continue InPlace, w))
      else if Data n = ''link'' then
        (if isPreloadJS n \<and> removeJS config then
           (case RemoveChild p of Inl e \<Rightarrow> Inl e | Inr (l, r) \<Rightarrow> Inr (Returned l r, w))
         else if isStylesheet n then
           (case embedCSS config p n w of Inl e \<Rightarrow> Inl e | Inr (oc, w1) \<Rightarrow> Inr (Continue oc, w1))
         else Inr (Continue InPlace, w))
      else Inr (Continue InPlace, w))"

text \<open>
  \<^verbatim>\<open>processNode\<close> visits the node \<^verbatim>\<open>n\<close> at its place \<open>p\<close>. It returns what became of
  the place, and the node as the call leaves it (a detached node is no longer in the
  tree). The loop over the children takes \<^verbatim>\<open>next := c.NextSibling\<close> before it visits
  \<^verbatim>\<open>c\<close>: \<open>processChildren config prev (c # next) w\<close> is the loop at the child \<^verbatim>\<open>c\<close>,
  with \<open>prev\<close> the children of \<^verbatim>\<open>n\<close> before \<^verbatim>\<open>c\<close> as the earlier visits left them and
  \<open>next\<close> the siblings after \<^verbatim>\<open>c\<close>. A visit changes the child list only at the place of
  the visited child, so after it the children before \<open>next\<close> are \<open>prev\<close> with the visited
  child (in place), or what the detaching left there.
\<close>

fun processNode ::
    "Config \<Rightarrow> place \<Rightarrow> Node \<Rightarrow> World \<Rightarrow> panic + ((outcome \<times> Node) \<times> World)"
  and processChildren ::
    "Config \<Rightarrow> Node list \<Rightarrow> Node list \<Rightarrow> World \<Rightarrow> panic + (Node list \<times> World)" where
  "processNode config p (Node ty dat attrs cs) w =
     (case (if ty = ElementNode then tagSwitch config p (Node ty dat attrs cs) w
            else Inr (Continue InPlace, w)) of
        Inl e \<Rightarrow> Inl e
      | Inr (Returned l r, w1) \<Rightarrow> Inr ((Detached l r, Node ty dat attrs cs), w1)
      | Inr (Continue oc, w1) \<Rightarrow>
          (let n1 = (if ty = ElementNode \<and> removeJS config
                     then removeInlineJS (Node ty dat attrs cs) else Node ty dat attrs cs)
           in case processChildren config [] cs w1 of
                Inl e \<Rightarrow> Inl e
              | Inr (cs', w2) \<Rightarrow> Inr ((oc, Node (Type n1) (Data n1) (Attr n1) cs'), w2)))"
| "processChildren config prev [] w = Inr (prev, w)"
| "processChildren config prev (c # next) w =
     (case processNode config (Some (prev, next)) c w of
        Inl e \<Rightarrow> Inl e
      | Inr ((InPlace, c'), w1) \<Rightarrow> processChildren config (prev @ [c']) next w1
      | Inr ((Detached l r, c'), w1) \<Rightarrow> processChildren config l next w1)"

text \<open>
  \<^verbatim>\<open>processHTML\<close>. \<^verbatim>\<open>html.Parse\<close> and \<^verbatim>\<open>html.Render\<close> are parameters; each error
  return of the function is a value.
\<close>

datatype failure =
  Panic panic
  | ErrorOpeningInputFile
  | ErrorParsingHTML
  | ErrorCreatingOutputFile
  | ErrorWritingOutputFile

definition processHTML ::
  "(string \<Rightarrow> Node option) \<Rightarrow> (Node \<Rightarrow> string option) \<Rightarrow> Config \<Rightarrow> World \<Rightarrow> failure + World" where
  "processHTML Parse Render config w =
     (case files w (inputFile config) of
        None \<Rightarrow> Inl ErrorOpeningInputFile
      | Some bytes \<Rightarrow>
          (case Parse bytes of
             None \<Rightarrow> Inl ErrorParsingHTML
           | Some doc \<Rightarrow>
               (case processNode config None doc w of
                  Inl e \<Rightarrow> Inl (Panic e)
                | Inr ((_, doc'), w1) \<Rightarrow>
                    if outputFile config \<in> uncreatable w1 then Inl ErrorCreatingOutputFile
                    else
                      (case Render doc' of
                         None \<Rightarrow> Inl ErrorWritingOutputFile
                       | Some out \<Rightarrow>
                           Inr (w1\<lparr>written := (written w1)(outputFile config \<mapsto> out)\<rparr>)))))"

section \<open>The notions the properties are stated with\<close>

text \<open>The path that \<^verbatim>\<open>embedCSS\<close> hands to \<^verbatim>\<open>os.ReadFile\<close> for the link \<open>n\<close>.\<close>

definition cssPath :: "Config \<Rightarrow> Node \<Rightarrow> string" where
  "cssPath config n =
     (let href = firstVal ''href'' (Attr n)
      in if HasPrefix href ''/_next'' then Join (baseDir config) href else href)"

text \<open>
  The nodes \<^verbatim>\<open>processNode\<close> detaches and returns from (a script element or a
  script-preload link, with JS removal on), and the links \<^verbatim>\<open>embedCSS\<close> replaces (a
  stylesheet link that is not removed as a preload, with a non-empty \<^verbatim>\<open>href\<close> whose
  file can be read). \<open>fs\<close> is the \<open>files\<close> field of the world.
\<close>

definition removed :: "Config \<Rightarrow> Node \<Rightarrow> bool" where
  "removed config n =
     (Type n = ElementNode \<and> removeJS config
      \<and> (Data n = ''script'' \<or> (Data n = ''link'' \<and> isPreloadJS n)))"

definition embedded :: "Config \<Rightarrow> (string \<rightharpoonup> string) \<Rightarrow> Node \<Rightarrow> bool" where
  "embedded config fs n =
     (Type n = ElementNode \<and> Data n = ''link'' \<and> \<not> (isPreloadJS n \<and> removeJS config)
      \<and> isStylesheet n \<and> firstVal ''href'' (Attr n) \<noteq> [] \<and> fs (cssPath config n) \<noteq> None)"

text \<open>
  What holds the place of a visited node afterwards, in the child list of the parent it
  had: the node itself, or what the detaching put after the earlier siblings \<open>l\<close>.
\<close>

definition slot :: "Node list \<Rightarrow> outcome \<Rightarrow> Node \<Rightarrow> Node list" where
  "slot l oc n' = (case oc of InPlace \<Rightarrow> [n'] | Detached l' r' \<Rightarrow> drop (length l) l')"

text \<open>
  No script element in the tree of a node; the number of nodes of a tree that are not
  script elements; the number of those strictly below the root.
\<close>

fun scriptFree :: "Node \<Rightarrow> bool" where
  "scriptFree (Node ty dat attrs cs) =
     (\<not> (ty = ElementNode \<and> dat = ''script'') \<and> list_all scriptFree cs)"

fun nonScriptNodes :: "Node \<Rightarrow> nat" where
  "nonScriptNodes (Node ty dat attrs cs) =
     (if ty = ElementNode \<and> dat = ''script'' then 0 else 1) + sum_list (map nonScriptNodes cs)"

definition nonScriptDescendants :: "Node \<Rightarrow> nat" where
  "nonScriptDescendants n = sum_list (map nonScriptNodes (Children n))"

text \<open>
  A tree whose non-script nodes a run leaves alone: no node that is not a script element
  lies inside a script element, no node outside the script elements is removed as a
  script-preload link, and none is a stylesheet link that is replaced.
\<close>

fun undisturbed :: "Config \<Rightarrow> (string \<rightharpoonup> string) \<Rightarrow> Node \<Rightarrow> bool" where
  "undisturbed config fs (Node ty dat attrs cs) =
     (if ty = ElementNode \<and> dat = ''script'' then sum_list (map nonScriptNodes cs) = 0
      else \<not> removed config (Node ty dat attrs cs)
           \<and> \<not> embedded config fs (Node ty dat attrs cs)
           \<and> list_all (undisturbed config fs) cs)"

text \<open>Two worlds with the same files, MIME table, refused paths and written files.\<close>

definition sameEnv :: "World \<Rightarrow> World \<Rightarrow> bool" where
  "sameEnv w w' =
     (files w' = files w \<and> mimeTypes w' = mimeTypes w \<and> uncreatable w' = uncreatable w
      \<and> written w' = written w)"

text \<open>
  The invariant of a visit, for every place with a parent and every world: the visit
  returns; the world outside is the same; the siblings on both sides are as they were;
  the node stays in place exactly when it is neither removed nor replaced; with JS
  removal on, what holds the place has no script element; on an undisturbed tree the
  count of non-script nodes in the place is unchanged; and the same visit without a
  parent gives the same node and world, or panics when the node was to be detached.
\<close>

definition visitOK :: "Config \<Rightarrow> Node \<Rightarrow> bool" where
  "visitOK config n =
     (\<forall>l r w. \<exists>oc n' w'.
        processNode config (Some (l, r)) n w = Inr ((oc, n'), w')
        \<and> sameEnv w w'
        \<and> (oc = InPlace \<or> (\<exists>extra. oc = Detached (l @ extra) r))
        \<and> (oc = InPlace) = (\<not> removed config n \<and> \<not> embedded config (files w) n)
        \<and> (removeJS config \<longrightarrow> list_all scriptFree (slot l oc n'))
        \<and> (undisturbed config (files w) n \<longrightarrow>
             sum_list (map nonScriptNodes (slot l oc n')) = nonScriptNodes n)
        \<and> processNode config None n w =
            (if oc = InPlace then Inr ((InPlace, n'), w') else Inl NilPointerDereference))"

text \<open>
  The path that \<^verbatim>\<open>embedImage\<close> hands to \<^verbatim>\<open>os.ReadFile\<close> for the reference \<open>src\<close>,
  and the MIME type it finds for a path.
\<close>

definition imgPath :: "Config \<Rightarrow> string \<Rightarrow> string" where
  "imgPath config src = (if HasPrefix src ''/_next'' then Join (baseDir config) src else src)"

definition imgMime :: "World \<Rightarrow> string \<Rightarrow> string" where
  "imgMime w path = (if mimeTypes w (Ext path) = [] then ''image/png'' else mimeTypes w (Ext path))"



text \<open>
  Two calls of \<^verbatim>\<open>embedImage\<close> in one run, on the nodes \<open>n\<close> and \<open>m\<close>: the second call
  starts from the configuration and the world the first one left. The result is the two
  nodes, the configuration and the world after both calls.
\<close>

definition embedImageTwice ::
  "Config \<Rightarrow> Node \<Rightarrow> Node \<Rightarrow> World \<Rightarrow> (Node \<times> Node) \<times> Config \<times> World" where
  "embedImageTwice config n m w =
     (case embedImage config n w of
        ((config1, n'), w1) \<Rightarrow>
          (case embedImage config1 m w1 of
             ((config2, m'), w2) \<Rightarrow> ((n', m'), config2, w2)))"

subsection \<open>Example data\<close>

definition attr :: "string \<Rightarrow> string \<Rightarrow> Attribute" where
  "attr k v = \<lparr>Namespace = [], Key = k, Val = v\<rparr>"

definition exConfig :: Config where
  "exConfig = \<lparr>inputFile = ''site/in.html'', outputFile = ''site/out.html'', removeJS = True,
      baseDir = ''site'', processedURLs = Map.empty\<rparr>"

text \<open>
  A stylesheet as in Scenario A of the specification, with the font path once more in a
  comment after the block.
\<close>

definition exFontFace :: string where
  "exFontFace = ''@font-face{font-family:X;src:url('' @ [CHR 0x27]
     @ ''/_next/static/font.woff2'' @ [CHR 0x27] @ '')}''"

definition exCss :: string where
  "exCss = exFontFace @ '' /* /_next/static/font.woff2 */''"

definition exUrl :: "string list" where
  "exUrl = [''url('' @ [CHR 0x27] @ ''/_next/static/font.woff2'' @ [CHR 0x27] @ '')'',
            ''/_next/static/font.woff2'']"

definition exWorld :: World where
  "exWorld = \<lparr>files = [''site/in.html'' \<mapsto> ''<html>'', ''site/_next/a.png'' \<mapsto> ''PNG'',
        ''logo.png'' \<mapsto> ''PNG'', ''style.css'' \<mapsto> exCss,
        ''site/_next/static/font.woff2'' \<mapsto> ''abc''],
      mimeTypes = (\<lambda>ext. if ext = ''.png'' then ''image/png'' else []),
      uncreatable = {}, reads = [], warnings = [], written = Map.empty\<rparr>"

text \<open>Scenario B of the specification, as the tree below the document node.\<close>

definition scenarioB :: Node where
  "scenarioB = Node DocumentNode [] []
     [Node ElementNode ''script'' [] [Node TextNode ''alert(1)'' [] []],
      Node ElementNode ''div'' [attr ''onclick'' ''f()''] [Node TextNode ''hi'' [] []]]"

definition exLink :: Node where
  "exLink = Node ElementNode ''link'' [attr ''rel'' ''stylesheet'', attr ''href'' ''style.css''] []"

definition exMissing :: Node where
  "exMissing = Node ElementNode ''link'' [attr ''rel'' ''stylesheet'', attr ''href'' ''missing.css''] []"

definition exSiblings :: "Node list" where
  "exSiblings = [Node ElementNode ''meta'' [] [], exLink, Node ElementNode ''title'' [] []]"

definition exParse :: "string \<Rightarrow> Node option" where
  "exParse bytes = Some (Node DocumentNode [] [] [exMissing])"

definition exRender :: "Node \<Rightarrow> string option" where
  "exRender doc = Some ''<link>''"

definition exScript :: Node where
  "exScript = Node ElementNode ''script'' [attr ''src'' ''a.js''] []"

definition exDoc :: Node where
  "exDoc = Node DocumentNode [] []
     [exScript,
      Node ElementNode ''div'' [attr ''onclick'' ''f()''] [Node TextNode ''hi'' [] []]]"

text \<open>Two image elements with the same \<^verbatim>\<open>src\<close>, under the prefix and outside it.\<close>

definition exImgNext :: "string \<Rightarrow> Node" where
  "exImgNext alt = Node ElementNode ''img'' [attr ''alt'' alt, attr ''src'' ''/_next/a.png''] []"

definition exImgLogo :: "string \<Rightarrow> Node" where
  "exImgLogo alt = Node ElementNode ''img'' [attr ''alt'' alt, attr ''src'' ''logo.png''] []"

definition exRewritten :: string where
  "exRewritten = ''@font-face{font-family:X;src:url('' @ [CHR 0x27]
     @ ''data:font/woff2;base64,YWJj'' @ [CHR 0x27]
     @ '')} /* data:font/woff2;base64,YWJj */''"

section \<open>Attribute stripping\<close>

lemma isJSAttr_iff: "isJSAttr k names \<longleftrightarrow> k \<in> set names"
  by (induction names) auto

lemma newAttrsLoop_filter:
  "newAttrsLoop attrs acc = acc @ filter (\<lambda>a. Key a \<notin> set jsAttributes) attrs"
  by (induction attrs arbitrary: acc) (simp_all add: isJSAttr_iff)

lemma Attr_removeInlineJS:
  "Attr (removeInlineJS n) = filter (\<lambda>a. Key a \<notin> set jsAttributes) (Attr n)"
  by (simp add: removeInlineJS_def newAttrsLoop_filter)

text \<open>
  Claim C8. Applying \<^verbatim>\<open>removeInlineJS\<close> twice to an element gives the same node, and so
  the same attribute list, as applying it once.
\<close>

theorem removeInlineJS_idempotent:
  "removeInlineJS (removeInlineJS n) = removeInlineJS n"
  by (simp add: removeInlineJS_def newAttrsLoop_filter)

text \<open>
  Claim C9. \<^verbatim>\<open>removeInlineJS\<close> keeps, in their order, exactly the attributes whose key
  is not one of the seventeen listed names, compared as byte strings; it changes nothing
  else of the node. Keys such as \<^verbatim>\<open>onerror\<close> and \<^verbatim>\<open>onClick\<close> are not in the list, so
  attributes with these keys stay.
\<close>

theorem removeInlineJS_exact:
  "Attr (removeInlineJS n) = filter (\<lambda>a. Key a \<notin> set jsAttributes) (Attr n)
   \<and> Type (removeInlineJS n) = Type n \<and> Data (removeInlineJS n) = Data n
   \<and> Children (removeInlineJS n) = Children n
   \<and> length jsAttributes = 17 \<and> distinct jsAttributes
   \<and> ''onerror'' \<notin> set jsAttributes \<and> ''onClick'' \<notin> set jsAttributes
   \<and> a \<in> set (Attr (removeInlineJS n))
       = (a \<in> set (Attr n) \<and> Key a \<notin> set jsAttributes)"
proof -
  have "length jsAttributes = 17" "distinct jsAttributes"
    "''onerror'' \<notin> set jsAttributes" "''onClick'' \<notin> set jsAttributes"
    by (simp_all add: jsAttributes_def)
  then show ?thesis
    by (simp add: Attr_removeInlineJS) (simp add: removeInlineJS_def)
qed

section \<open>The tree transformation\<close>

subsection \<open>\<^verbatim>\<open>embedCSS\<close> and the switch, by cases\<close>

lemma replaceNode_Some: "replaceNode (Some (l, r)) new = Inr (Detached (l @ [new]) r)"
  by (simp add: replaceNode_def InsertBefore_def RemoveChild_def)

lemma replaceNode_None: "replaceNode None new = Inl NilPointerDereference"
  by (simp add: replaceNode_def InsertBefore_def)

lemma files_ReadFile [simp]: "files (snd (ReadFile path w)) = files w"
  by (simp add: ReadFile_def)

lemma embedFont_static:
  "embedFont config url css w = (css', w') \<Longrightarrow>
     files w' = files w \<and> mimeTypes w' = mimeTypes w \<and> uncreatable w' = uncreatable w \<and> written w' = written w"
  by (auto simp: embedFont_def ReadFile_def logWarning_def Let_def split: if_splits option.splits)

lemma urlsLoop_static:
  "urlsLoop config urls css w = (css', w') \<Longrightarrow>
     files w' = files w \<and> mimeTypes w' = mimeTypes w \<and> uncreatable w' = uncreatable w \<and> written w' = written w"
proof (induction urls arbitrary: css w)
  case Nil then show ?case by simp
next
  case (Cons url urls)
  obtain c1 w1 where e: "embedFont config url css w = (c1, w1)" by (cases "embedFont config url css w")
  with Cons.prems have "urlsLoop config urls c1 w1 = (css', w')" by simp
  from Cons.IH [OF this] embedFont_static [OF e] show ?case by simp
qed

lemma fontFacesLoop_static:
  "fontFacesLoop config ffs css w = (css', w') \<Longrightarrow>
     files w' = files w \<and> mimeTypes w' = mimeTypes w \<and> uncreatable w' = uncreatable w \<and> written w' = written w"
proof (induction ffs arbitrary: css w)
  case Nil then show ?case by simp
next
  case (Cons ff ffs)
  obtain c1 w1 where e: "urlsLoop config (fontUrlFindAll ff) css w = (c1, w1)"
    by (cases "urlsLoop config (fontUrlFindAll ff) css w")
  with Cons.prems have "fontFacesLoop config ffs c1 w1 = (css', w')" by simp
  from Cons.IH [OF this] urlsLoop_static [OF e] show ?case by simp
qed

lemma rewriteFontFaces_static:
  "rewriteFontFaces config css w = (css', w') \<Longrightarrow>
     files w' = files w \<and> mimeTypes w' = mimeTypes w \<and> uncreatable w' = uncreatable w \<and> written w' = written w"
  unfolding rewriteFontFaces_def by (rule fontFacesLoop_static)

lemma embedCSS_cases:
  "embedCSS config p n w =
     (if firstVal ''href'' (Attr n) = [] then Inr (InPlace, w)
      else case files w (cssPath config n) of
        None \<Rightarrow> Inr (InPlace, logWarning (CouldNotReadCSS (cssPath config n))
                  (w\<lparr>reads := reads w @ [cssPath config n]\<rparr>))
      | Some cssContent \<Rightarrow>
          (case p of
             None \<Rightarrow> Inl NilPointerDereference
           | Some (l, r) \<Rightarrow>
               Inr (Detached (l @ [styleNode (fst (rewriteFontFaces config cssContent
                        (w\<lparr>reads := reads w @ [cssPath config n]\<rparr>)))]) r,
                    snd (rewriteFontFaces config cssContent
                        (w\<lparr>reads := reads w @ [cssPath config n]\<rparr>)))))"
  by (auto simp: embedCSS_def cssPath_def Let_def ReadFile_def replaceNode_Some replaceNode_None
      split: option.splits prod.splits)

lemma sameEnv_refl [simp]: "sameEnv w w"
  by (simp add: sameEnv_def)

lemma sameEnv_trans: "sameEnv w w1 \<Longrightarrow> sameEnv w1 w2 \<Longrightarrow> sameEnv w w2"
  by (simp add: sameEnv_def)

text \<open>The switch, by what it does to the node.\<close>

lemma tagSwitch_removed:
  "removed config n \<Longrightarrow>
   tagSwitch config p n w =
     (case p of None \<Rightarrow> Inl NilPointerDereference | Some (l, r) \<Rightarrow> Inr (Returned l r, w))"
  by (auto simp: removed_def tagSwitch_def RemoveChild_def split: option.splits)

lemma tagSwitch_embedded:
  "embedded config (files w) n \<Longrightarrow>
   tagSwitch config p n w =
     (case p of
        None \<Rightarrow> Inl NilPointerDereference
      | Some (l, r) \<Rightarrow>
          (case embedCSS config (Some (l, r)) n w of
             Inr (oc, w1) \<Rightarrow> Inr (Continue oc, w1) | Inl e \<Rightarrow> Inl e))"
  by (auto simp: embedded_def tagSwitch_def embedCSS_cases split: option.splits)

lemma embedCSS_embedded:
  "embedded config (files w) n \<Longrightarrow>
   \<exists>css w1. embedCSS config (Some (l, r)) n w = Inr (Detached (l @ [styleNode css]) r, w1)
     \<and> sameEnv w w1"
  by (auto simp: embedded_def embedCSS_cases sameEnv_def
      rewriteFontFaces_static [OF surjective_pairing])

lemma tagSwitch_other:
  "Type n = ElementNode \<Longrightarrow> \<not> removed config n \<Longrightarrow> \<not> embedded config (files w) n \<Longrightarrow>
   \<exists>w1. tagSwitch config p n w = Inr (Continue InPlace, w1) \<and> sameEnv w w1"
  by (auto simp: removed_def embedded_def tagSwitch_def embedCSS_cases sameEnv_def logWarning_def
      split: option.splits)

lemma tagSwitch_other_place:
  "\<not> removed config n \<Longrightarrow> \<not> embedded config (files w) n \<Longrightarrow>
   Type n = ElementNode \<Longrightarrow> tagSwitch config p n w = tagSwitch config None n w"
  by (auto simp: removed_def embedded_def tagSwitch_def embedCSS_cases split: option.splits)

lemma Type_removeInlineJS [simp]: "Type (removeInlineJS n) = Type n"
  and Data_removeInlineJS [simp]: "Data (removeInlineJS n) = Data n"
  by (simp_all add: removeInlineJS_def)

subsection \<open>The invariant of the traversal\<close>

lemma zero_undisturbed: "nonScriptNodes n = 0 \<Longrightarrow> undisturbed config fs n"
  by (cases n) (simp split: if_splits)

lemma sum_zero_undisturbed:
  "sum_list (map nonScriptNodes cs) = 0 \<Longrightarrow> list_all (undisturbed config fs) cs"
  by (induction cs) (simp_all add: zero_undisturbed)

lemma processChildren_inv:
  assumes IH: "\<And>c. c \<in> set cs \<Longrightarrow> visitOK config c"
  shows "\<exists>new w'. processChildren config prev cs w = Inr (prev @ new, w')
          \<and> sameEnv w w'
          \<and> (removeJS config \<longrightarrow> list_all scriptFree new)
          \<and> (list_all (undisturbed config (files w)) cs \<longrightarrow>
               sum_list (map nonScriptNodes new) = sum_list (map nonScriptNodes cs))"
  using IH
proof (induction cs arbitrary: prev w)
  case Nil
  then show ?case by simp
next
  case (Cons c cs)
  have "visitOK config c" using Cons.prems by simp
  then obtain oc c' w1 where
    v: "processNode config (Some (prev, cs)) c w = Inr ((oc, c'), w1)"
    and env: "sameEnv w w1"
    and fr: "oc = InPlace \<or> (\<exists>extra. oc = Detached (prev @ extra) cs)"
    and sf: "removeJS config \<longrightarrow> list_all scriptFree (slot prev oc c')"
    and cnt: "undisturbed config (files w) c \<longrightarrow>
               sum_list (map nonScriptNodes (slot prev oc c')) = nonScriptNodes c"
    unfolding visitOK_def by blast
  have fw: "files w1 = files w" using env by (simp add: sameEnv_def)
  obtain prev' where prev': "prev' = prev @ slot prev oc c'" by simp
  have step: "processChildren config prev (c # cs) w = processChildren config prev' cs w1"
    using v fr prev' by (auto simp: slot_def)
  from Cons.IH [of prev' w1] Cons.prems obtain new w' where
    r: "processChildren config prev' cs w1 = Inr (prev' @ new, w')"
    and env': "sameEnv w1 w'"
    and sf': "removeJS config \<longrightarrow> list_all scriptFree new"
    and cnt': "list_all (undisturbed config (files w1)) cs \<longrightarrow>
               sum_list (map nonScriptNodes new) = sum_list (map nonScriptNodes cs)"
    by auto
  show ?case
  proof (intro exI conjI)
    show "processChildren config prev (c # cs) w = Inr (prev @ (slot prev oc c' @ new), w')"
      using step r prev' by simp
    show "sameEnv w w'" using env env' by (rule sameEnv_trans)
    show "removeJS config \<longrightarrow> list_all scriptFree (slot prev oc c' @ new)"
      using sf sf' by simp
    show "list_all (undisturbed config (files w)) (c # cs) \<longrightarrow>
          sum_list (map nonScriptNodes (slot prev oc c' @ new))
            = sum_list (map nonScriptNodes (c # cs))"
      using cnt cnt' fw by simp
  qed
qed

lemma visitOK_all: "visitOK config n"
proof (induction n)
  case (Node ty dat attrs cs)
  let ?n = "Node ty dat attrs cs"
  have kids: "\<And>prev w. \<exists>new w'. processChildren config prev cs w = Inr (prev @ new, w')
          \<and> sameEnv w w'
          \<and> (removeJS config \<longrightarrow> list_all scriptFree new)
          \<and> (list_all (undisturbed config (files w)) cs \<longrightarrow>
               sum_list (map nonScriptNodes new) = sum_list (map nonScriptNodes cs))"
    using processChildren_inv [of cs config] Node.IH by blast
  show ?case
    unfolding visitOK_def
  proof (intro allI)
    fix l r and w :: World
    consider (rem) "removed config ?n"
      | (emb) "\<not> removed config ?n" "embedded config (files w) ?n"
      | (elt) "ty = ElementNode" "\<not> removed config ?n" "\<not> embedded config (files w) ?n"
      | (oth) "ty \<noteq> ElementNode"
      by blast
    then show "\<exists>oc n' w'.
        processNode config (Some (l, r)) ?n w = Inr ((oc, n'), w')
        \<and> sameEnv w w'
        \<and> (oc = InPlace \<or> (\<exists>extra. oc = Detached (l @ extra) r))
        \<and> (oc = InPlace) = (\<not> removed config ?n \<and> \<not> embedded config (files w) ?n)
        \<and> (removeJS config \<longrightarrow> list_all scriptFree (slot l oc n'))
        \<and> (undisturbed config (files w) ?n \<longrightarrow>
             sum_list (map nonScriptNodes (slot l oc n')) = nonScriptNodes ?n)
        \<and> processNode config None ?n w =
            (if oc = InPlace then Inr ((InPlace, n'), w') else Inl NilPointerDereference)"
    proof cases
      case rem
      then have ty: "ty = ElementNode" by (simp add: removed_def)
      have "processNode config (Some (l, r)) ?n w = Inr ((Detached l r, ?n), w)"
        using tagSwitch_removed [OF rem, of "Some (l, r)" w] ty by simp
      moreover have "processNode config None ?n w = Inl NilPointerDereference"
        using tagSwitch_removed [OF rem, of None w] ty by simp
      moreover have "undisturbed config (files w) ?n \<longrightarrow> nonScriptNodes ?n = 0"
        using rem by (auto simp: removed_def)
      ultimately show ?thesis
        using rem
        by (intro exI [of _ "Detached l r"] exI [of _ ?n] exI [of _ w]) (simp add: slot_def)
    next
      case emb
      then have ty: "ty = ElementNode" by (simp add: embedded_def)
      from embedCSS_embedded [OF emb(2), of l r] obtain css w1 where
        e: "embedCSS config (Some (l, r)) ?n w = Inr (Detached (l @ [styleNode css]) r, w1)"
        and env: "sameEnv w w1" by blast
      from kids [of "[]" w1] obtain new w2 where
        k: "processChildren config [] cs w1 = Inr (new, w2)" and env2: "sameEnv w1 w2" by auto
      let ?n1 = "if removeJS config then removeInlineJS ?n else ?n"
      let ?n' = "Node (Type ?n1) (Data ?n1) (Attr ?n1) new"
      have "processNode config (Some (l, r)) ?n w
              = Inr ((Detached (l @ [styleNode css]) r, ?n'), w2)"
        using tagSwitch_embedded [OF emb(2), of "Some (l, r)"] e k ty by (simp add: Let_def)
      moreover have "processNode config None ?n w = Inl NilPointerDereference"
        using tagSwitch_embedded [OF emb(2), of None] ty by simp
      moreover have "\<not> undisturbed config (files w) ?n"
        using emb by (auto simp: embedded_def)
      moreover have "list_all scriptFree [styleNode css]"
        by (simp add: styleNode_def)
      ultimately show ?thesis
        using sameEnv_trans [OF env env2] emb(2)
        by (intro exI [of _ "Detached (l @ [styleNode css]) r"] exI [of _ ?n'] exI [of _ w2])
          (simp add: slot_def)
    next
      case elt
      from tagSwitch_other [OF _ elt(2,3), of "Some (l, r)"] elt(1) obtain w1 where
        t: "tagSwitch config (Some (l, r)) ?n w = Inr (Continue InPlace, w1)"
        and env: "sameEnv w w1" by auto
      have t': "tagSwitch config None ?n w = Inr (Continue InPlace, w1)"
        using tagSwitch_other_place [OF elt(2,3), of "Some (l, r)"] t elt(1) by simp
      from kids [of "[]" w1] obtain new w2 where
        k: "processChildren config [] cs w1 = Inr (new, w2)" and env2: "sameEnv w1 w2"
        and sf: "removeJS config \<longrightarrow> list_all scriptFree new"
        and cnt: "list_all (undisturbed config (files w1)) cs \<longrightarrow>
               sum_list (map nonScriptNodes new) = sum_list (map nonScriptNodes cs)" by auto
      have fw: "files w1 = files w" using env by (simp add: sameEnv_def)
      let ?n1 = "if removeJS config then removeInlineJS ?n else ?n"
      let ?n' = "Node (Type ?n1) (Data ?n1) (Attr ?n1) new"
      have p1: "processNode config (Some (l, r)) ?n w = Inr ((InPlace, ?n'), w2)"
        using t k elt(1) by (simp add: Let_def)
      have p2: "processNode config None ?n w = Inr ((InPlace, ?n'), w2)"
        using t' k elt(1) by (simp add: Let_def)
      have s1: "removeJS config \<longrightarrow> scriptFree ?n'"
        using sf elt(1,2) by (simp add: removed_def)
      have un: "undisturbed config (files w) ?n \<longrightarrow> list_all (undisturbed config (files w)) cs"
        by (simp add: sum_zero_undisturbed)
      have c1: "undisturbed config (files w) ?n \<longrightarrow> nonScriptNodes ?n' = nonScriptNodes ?n"
      proof
        assume "undisturbed config (files w) ?n"
        with un have "list_all (undisturbed config (files w)) cs" by blast
        with cnt fw have "sum_list (map nonScriptNodes new) = sum_list (map nonScriptNodes cs)"
          by simp
        then show "nonScriptNodes ?n' = nonScriptNodes ?n" by simp
      qed
      show ?thesis
        using p1 p2 s1 c1 sameEnv_trans [OF env env2] elt(2,3)
        by (intro exI [of _ InPlace] exI [of _ ?n'] exI [of _ w2]) (simp add: slot_def)
    next
      case oth
      from kids [of "[]" w] obtain new w2 where
        k: "processChildren config [] cs w = Inr (new, w2)" and env2: "sameEnv w w2"
        and sf: "removeJS config \<longrightarrow> list_all scriptFree new"
        and cnt: "list_all (undisturbed config (files w)) cs \<longrightarrow>
               sum_list (map nonScriptNodes new) = sum_list (map nonScriptNodes cs)" by auto
      have un: "undisturbed config (files w) ?n \<longrightarrow> list_all (undisturbed config (files w)) cs"
        using oth by simp
      have "\<not> removed config ?n" "\<not> embedded config (files w) ?n"
        using oth by (simp_all add: removed_def embedded_def)
      then show ?thesis
        using oth k env2 sf cnt un
        by (intro exI [of _ InPlace] exI [of _ "Node ty dat attrs new"] exI [of _ w2])
          (simp add: slot_def)
    qed
  qed
qed

lemma processNode_place:
  obtains oc n' w' where
    "processNode config (Some (l, r)) n w = Inr ((oc, n'), w')"
    "sameEnv w w'"
    "oc = InPlace \<or> (\<exists>extra. oc = Detached (l @ extra) r)"
    "(oc = InPlace) = (\<not> removed config n \<and> \<not> embedded config (files w) n)"
    "removeJS config \<longrightarrow> list_all scriptFree (slot l oc n')"
    "undisturbed config (files w) n \<longrightarrow>
       sum_list (map nonScriptNodes (slot l oc n')) = nonScriptNodes n"
    "processNode config None n w =
       (if oc = InPlace then Inr ((InPlace, n'), w') else Inl NilPointerDereference)"
  using visitOK_all [of config n] unfolding visitOK_def by blast

text \<open>The visit panics exactly on a node without a parent that it would detach.\<close>

lemma processNode_panic_iff:
  "(processNode config p n w = Inl NilPointerDereference)
     = (p = None \<and> (removed config n \<or> embedded config (files w) n))"
proof (cases p)
  case None
  obtain oc n' w' where
    "(oc = InPlace) = (\<not> removed config n \<and> \<not> embedded config (files w) n)"
    "processNode config None n w =
       (if oc = InPlace then Inr ((InPlace, n'), w') else Inl NilPointerDereference)"
    by (rule processNode_place [of config "[]" "[]" n w])
  with None show ?thesis by auto
next
  case (Some lr)
  obtain l r where "lr = (l, r)" by (cases lr)
  with Some processNode_place [of config l r n w] show ?thesis by (metis Inl_Inr_False option.distinct(1))
qed

lemma processNode_Type_Data:
  "processNode config p n w = Inr ((oc, n'), w') \<Longrightarrow> Type n' = Type n \<and> Data n' = Data n"
  by (cases n) (auto simp: Let_def split: if_splits sum.splits prod.splits flow.splits)

lemma nonScriptNodes_split:
  "nonScriptNodes n =
     (if Type n = ElementNode \<and> Data n = ''script'' then 0 else 1) + nonScriptDescendants n"
  by (cases n) (simp add: nonScriptDescendants_def)

subsection \<open>Script removal\<close>

text \<open>
  Claim C2, as amended. With JS removal on, \<^verbatim>\<open>processNode\<close> called on a root that
  is not an element node (the document node of a parsed document) returns, the root stays
  in place, and no script element is left anywhere in the tree. The number of non-script
  descendants of the root is unchanged when the tree is undisturbed: no non-script node
  lies inside a script element, no link is removed as a script preload and no stylesheet
  link is replaced by a style element.
\<close>

theorem processNode_scripts:
  assumes "removeJS config" and "Type root \<noteq> ElementNode"
  shows "\<exists>root' w'. processNode config None root w = Inr ((InPlace, root'), w')
     \<and> scriptFree root'
     \<and> (undisturbed config (files w) root \<longrightarrow>
          nonScriptDescendants root' = nonScriptDescendants root)"
proof -
  obtain oc n' w' where
    ip: "(oc = InPlace) = (\<not> removed config root \<and> \<not> embedded config (files w) root)"
    and sf: "removeJS config \<longrightarrow> list_all scriptFree (slot [] oc n')"
    and cnt: "undisturbed config (files w) root \<longrightarrow>
       sum_list (map nonScriptNodes (slot [] oc n')) = nonScriptNodes root"
    and res: "processNode config None root w =
       (if oc = InPlace then Inr ((InPlace, n'), w') else Inl NilPointerDereference)"
    by (rule processNode_place [of config "[]" "[]" root w])
  have oc: "oc = InPlace" using ip assms(2) by (simp add: removed_def embedded_def)
  have res': "processNode config None root w = Inr ((InPlace, n'), w')"
    using res oc by simp
  have ty: "Type n' \<noteq> ElementNode"
    using processNode_Type_Data [OF res'] assms(2) by simp
  have "scriptFree n'" using sf oc assms(1) by (simp add: slot_def)
  moreover have "undisturbed config (files w) root \<longrightarrow>
      nonScriptDescendants n' = nonScriptDescendants root"
    using cnt oc ty assms(2) nonScriptNodes_split [of n'] nonScriptNodes_split [of root]
    by (simp add: slot_def)
  ultimately show ?thesis using res' by blast
qed

text \<open>
  The count as claimed fails on Scenario B: the text inside the script element is a
  non-script descendant of the root, and it goes with the script element.
\<close>

theorem script_count_counterexample:
  "\<not> scriptFree scenarioB \<and> removeJS exConfig
   \<and> processNode exConfig None scenarioB exWorld
       = Inr ((InPlace, Node DocumentNode [] []
                 [Node ElementNode ''div'' [] [Node TextNode ''hi'' [] []]]), exWorld)
   \<and> nonScriptDescendants scenarioB = 3
   \<and> nonScriptDescendants (Node DocumentNode [] []
                 [Node ElementNode ''div'' [] [Node TextNode ''hi'' [] []]]) = 2"
  by (simp add: scenarioB_def exConfig_def tagSwitch_def RemoveChild_def nonScriptDescendants_def
      removeInlineJS_def attr_def jsAttributes_def isPreloadJS_def isStylesheet_def)

theorem processNode_scripts_witness:
  "removeJS exConfig \<and> Type exDoc \<noteq> ElementNode \<and> \<not> scriptFree exDoc
   \<and> undisturbed exConfig (files exWorld) exDoc
   \<and> (\<exists>root' w'. processNode exConfig None exDoc exWorld = Inr ((InPlace, root'), w')
     \<and> scriptFree root'
     \<and> nonScriptDescendants root' = nonScriptDescendants exDoc)"
proof -
  have h: "removeJS exConfig" "Type exDoc \<noteq> ElementNode"
    by (simp_all add: exConfig_def exDoc_def)
  have u: "undisturbed exConfig (files exWorld) exDoc" "\<not> scriptFree exDoc"
    by (simp_all add: exDoc_def exScript_def removed_def embedded_def)
  show ?thesis using h u processNode_scripts [OF h, of exWorld] by simp
qed

subsection \<open>Replacing a link by a style element\<close>

text \<open>
  Claim C6. Let \<open>cs\<close> be the child list of a parent and let the link at index \<open>i\<close>
  have a non-empty \<^verbatim>\<open>href\<close> whose file can be read. \<^verbatim>\<open>embedCSS\<close> on that link
  returns with the link detached, and the parent's child list is \<open>cs\<close> with the style
  element at index \<open>i\<close>: the same length, the same children before and after \<open>i\<close>.
\<close>

theorem embedCSS_position:
  assumes "i < length cs"
    and "firstVal ''href'' (Attr (cs ! i)) \<noteq> []"
    and "files w (cssPath config (cs ! i)) \<noteq> None"
  shows "\<exists>l r css w'.
      embedCSS config (Some (take i cs, drop (Suc i) cs)) (cs ! i) w = Inr (Detached l r, w')
      \<and> l @ r = cs[i := styleNode css]
      \<and> length (l @ r) = length cs
      \<and> (l @ r) ! i = styleNode css
      \<and> take i (l @ r) = take i cs
      \<and> drop (Suc i) (l @ r) = drop (Suc i) cs"
proof -
  from assms(3) obtain content where c: "files w (cssPath config (cs ! i)) = Some content"
    by blast
  let ?w1 = "w\<lparr>reads := reads w @ [cssPath config (cs ! i)]\<rparr>"
  let ?css = "fst (rewriteFontFaces config content ?w1)"
  let ?l = "take i cs @ [styleNode ?css]"
  have e: "embedCSS config (Some (take i cs, drop (Suc i) cs)) (cs ! i) w
      = Inr (Detached ?l (drop (Suc i) cs), snd (rewriteFontFaces config content ?w1))"
    using assms(2) c by (simp add: embedCSS_cases)
  have u: "take i cs @ styleNode ?css # drop (Suc i) cs = cs[i := styleNode ?css]"
    using assms(1) by (simp add: upd_conv_take_nth_drop)
  show ?thesis
    apply (rule exI [of _ ?l])
    apply (rule exI [of _ "drop (Suc i) cs"])
    apply (rule exI [of _ ?css])
    apply (rule exI [of _ "snd (rewriteFontFaces config content ?w1)"])
    using e assms(1) by (simp add: u)
qed

theorem embedCSS_position_witness:
  "1 < length exSiblings
   \<and> firstVal ''href'' (Attr (exSiblings ! 1)) \<noteq> []
   \<and> files exWorld (cssPath exConfig (exSiblings ! 1)) \<noteq> None
   \<and> (\<exists>l r css w'.
      embedCSS exConfig (Some (take 1 exSiblings, drop (Suc 1) exSiblings)) (exSiblings ! 1) exWorld
        = Inr (Detached l r, w')
      \<and> l @ r = exSiblings[1 := styleNode css]
      \<and> length (l @ r) = length exSiblings
      \<and> (l @ r) ! 1 = styleNode css
      \<and> take 1 (l @ r) = take 1 exSiblings
      \<and> drop (Suc 1) (l @ r) = drop (Suc 1) exSiblings)"
proof -
  have h: "1 < length exSiblings" "firstVal ''href'' (Attr (exSiblings ! 1)) \<noteq> []"
    "files exWorld (cssPath exConfig (exSiblings ! 1)) \<noteq> None"
    by (simp_all add: exSiblings_def exLink_def attr_def cssPath_def HasPrefix_def exWorld_def)
  show ?thesis using h embedCSS_position [OF h] by simp
qed

subsection \<open>An unreadable stylesheet\<close>

lemma processNode_sameEnv:
  "processNode config p n w = Inr ((oc, n'), w') \<Longrightarrow> sameEnv w w'"
proof (cases p)
  case None
  assume a: "processNode config p n w = Inr ((oc, n'), w')"
  obtain oc1 n1 w1 where
    "sameEnv w w1"
    "processNode config None n w =
       (if oc1 = InPlace then Inr ((InPlace, n1), w1) else Inl NilPointerDereference)"
    by (rule processNode_place [of config "[]" "[]" n w])
  with a None show ?thesis by (auto split: if_splits)
next
  case (Some lr)
  assume a: "processNode config p n w = Inr ((oc, n'), w')"
  obtain l r where "lr = (l, r)" by (cases lr)
  with a Some processNode_place [of config l r n w] show ?thesis
    by (metis Pair_inject sum.inject(2))
qed

text \<open>
  Claim C7. When the file of a link's non-empty \<^verbatim>\<open>href\<close> cannot be read,
  \<^verbatim>\<open>embedCSS\<close> returns with the node in place, whatever its place is, and all it
  changes in the world is the read it tried and the warning it logs with the path. The run
  goes on: when the input file opens and parses to a tree whose root is not an element,
  the output file can be created and rendering succeeds, \<^verbatim>\<open>processHTML\<close> returns
  without error and has written the output file.
\<close>

theorem embedCSS_unreadable:
  assumes "firstVal ''href'' (Attr n) \<noteq> []"
    and "files w (cssPath config n) = None"
    and "files w0 (inputFile config) = Some bytes"
    and "Parse bytes = Some doc"
    and "Type doc \<noteq> ElementNode"
    and "outputFile config \<notin> uncreatable w0"
    and "\<forall>t. \<exists>out. Render t = Some out"
  shows "embedCSS config p n w
           = Inr (InPlace, w\<lparr>reads := reads w @ [cssPath config n],
                              warnings := warnings w @ [CouldNotReadCSS (cssPath config n)]\<rparr>)
         \<and> (\<exists>w' out. processHTML Parse Render config w0 = Inr w'
               \<and> written w' (outputFile config) = Some out)"
proof
  show "embedCSS config p n w
           = Inr (InPlace, w\<lparr>reads := reads w @ [cssPath config n],
                              warnings := warnings w @ [CouldNotReadCSS (cssPath config n)]\<rparr>)"
    using assms(1,2) by (simp add: embedCSS_cases logWarning_def)
next
  have "processNode config None doc w0 \<noteq> Inl NilPointerDereference"
    using assms(5) by (simp add: processNode_panic_iff removed_def embedded_def)
  then obtain oc doc' w1 where r: "processNode config None doc w0 = Inr ((oc, doc'), w1)"
    by (metis panic.exhaust sum.exhaust surj_pair)
  from processNode_sameEnv [OF r] have u: "uncreatable w1 = uncreatable w0"
    by (simp add: sameEnv_def)
  from assms(7) obtain out where o: "Render doc' = Some out" by blast
  show "\<exists>w' out. processHTML Parse Render config w0 = Inr w'
               \<and> written w' (outputFile config) = Some out"
    using assms(3,4,6) r u o by (simp add: processHTML_def)
qed

theorem embedCSS_unreadable_witness:
  "firstVal ''href'' (Attr exMissing) \<noteq> []
   \<and> files exWorld (cssPath exConfig exMissing) = None
   \<and> files exWorld (inputFile exConfig) = Some ''<html>''
   \<and> exParse ''<html>'' = Some (Node DocumentNode [] [] [exMissing])
   \<and> Type (Node DocumentNode [] [] [exMissing]) \<noteq> ElementNode
   \<and> outputFile exConfig \<notin> uncreatable exWorld
   \<and> embedCSS exConfig (Some ([], [])) exMissing exWorld
           = Inr (InPlace, exWorld\<lparr>reads := reads exWorld @ [cssPath exConfig exMissing],
                 warnings := warnings exWorld @ [CouldNotReadCSS (cssPath exConfig exMissing)]\<rparr>)
   \<and> (\<exists>w' out. processHTML exParse exRender exConfig exWorld = Inr w'
               \<and> written w' (outputFile exConfig) = Some out)"
proof -
  have h: "firstVal ''href'' (Attr exMissing) \<noteq> []"
    "files exWorld (cssPath exConfig exMissing) = None"
    "files exWorld (inputFile exConfig) = Some ''<html>''"
    "exParse ''<html>'' = Some (Node DocumentNode [] [] [exMissing])"
    "Type (Node DocumentNode [] [] [exMissing]) \<noteq> ElementNode"
    "outputFile exConfig \<notin> uncreatable exWorld"
    "\<forall>t. \<exists>out. exRender t = Some out"
    by (simp_all add: exMissing_def attr_def cssPath_def HasPrefix_def exWorld_def exConfig_def
        exParse_def exRender_def)
  show ?thesis using h(1-6) embedCSS_unreadable [where Parse = exParse and Render = exRender
      and p = "Some ([], [])", OF h] by simp
qed

subsection \<open>The parent of a visited node\<close>

text \<open>
  Claim C10. \<^verbatim>\<open>n.Parent.RemoveChild(n)\<close> and \<^verbatim>\<open>n.Parent.InsertBefore(styleNode, n)\<close>
  are reached without a test of \<^verbatim>\<open>n.Parent\<close>. In a tree every node below the visited
  one has a parent, so when the visited node has a parent or is not an element node,
  \<^verbatim>\<open>processNode\<close> returns. It panics exactly when the visited node has no parent and
  is a node it detaches: with JS removal on, a script element or a script-preload link;
  or a stylesheet link that \<^verbatim>\<open>embedCSS\<close> replaces.
\<close>

theorem nil_parent:
  "(p \<noteq> None \<or> Type n \<noteq> ElementNode \<longrightarrow> (\<exists>res. processNode config p n w = Inr res))
   \<and> (processNode config p n w = Inl NilPointerDereference)
       = (p = None \<and> (removed config n \<or> embedded config (files w) n))"
proof -
  have iff: "(processNode config p n w = Inl NilPointerDereference)
       = (p = None \<and> (removed config n \<or> embedded config (files w) n))"
    by (rule processNode_panic_iff)
  have "\<exists>res. processNode config p n w = Inr res" if "p \<noteq> None \<or> Type n \<noteq> ElementNode"
  proof -
    from that iff have "processNode config p n w \<noteq> Inl NilPointerDereference"
      by (auto simp: removed_def embedded_def)
    then show ?thesis by (metis panic.exhaust sum.exhaust)
  qed
  with iff show ?thesis by blast
qed

theorem nil_parent_witness:
  "processNode exConfig (Some ([], [])) exScript exWorld = Inr ((Detached [] [], exScript), exWorld)
   \<and> processNode exConfig None (Node DocumentNode [] [] [exScript]) exWorld
       = Inr ((InPlace, Node DocumentNode [] [] []), exWorld)
   \<and> processNode exConfig None exScript exWorld = Inl NilPointerDereference
   \<and> removed exConfig exScript"
proof -
  have r: "removed exConfig exScript"
    by (simp add: removed_def exConfig_def exScript_def)
  have "processNode exConfig None exScript exWorld = Inl NilPointerDereference"
    using nil_parent [of None exScript exConfig exWorld] r by simp
  moreover have "\<exists>res. processNode exConfig (Some ([], [])) exScript exWorld = Inr res"
    using nil_parent [of "Some ([], [])" exScript exConfig exWorld] by simp
  moreover have "processNode exConfig (Some ([], [])) exScript exWorld
        = Inr ((Detached [] [], exScript), exWorld)"
    by (simp add: exScript_def exConfig_def tagSwitch_def RemoveChild_def)
  moreover have "processNode exConfig None (Node DocumentNode [] [] [exScript]) exWorld
       = Inr ((InPlace, Node DocumentNode [] [] []), exWorld)"
    by (simp add: exScript_def exConfig_def tagSwitch_def RemoveChild_def)
  ultimately show ?thesis using r by simp
qed

section \<open>Base64 and the data URI\<close>

lemma indexOf_nth:
  "distinct xs \<Longrightarrow> i < length xs \<Longrightarrow> indexOf (xs ! i) xs = Some i"
proof (induction xs arbitrary: i)
  case Nil
  then show ?case by simp
next
  case (Cons x xs)
  show ?case
  proof (cases i)
    case 0
    then show ?thesis by simp
  next
    case (Suc j)
    with Cons.prems have "xs ! j \<in> set xs" "x \<notin> set xs" by auto
    then have "xs ! j \<noteq> x" by auto
    with Suc Cons show ?thesis by simp
  qed
qed

lemma length_encodeStd: "length encodeStd = 64"
  by (simp add: encodeStd_def)

lemma distinct_encodeStd: "distinct encodeStd"
  by (simp add: encodeStd_def)

lemma dec6_enc6: "dec6 (enc6 i) = Some (i mod 64)"
  unfolding dec6_def enc6_def
  by (rule indexOf_nth) (simp_all add: distinct_encodeStd length_encodeStd)

lemma enc6_in: "enc6 i \<in> set encodeStd"
  unfolding enc6_def by (rule nth_mem) (simp add: length_encodeStd)

lemma pad_notin: "CHR ''='' \<notin> set encodeStd"
  by (simp add: encodeStd_def)

lemma enc6_not_pad: "enc6 i \<noteq> CHR ''=''"
  using enc6_in [of i] pad_notin by metis

lemma of_char_lt: "of_char (b::char) < (256::nat)"
  by simp

lemma regroup:
  fixes v :: nat
  shows "(v div 262144) mod 64 * 262144 + (v div 4096) mod 64 * 4096 + (v div 64) mod 64 * 64
           + v mod 64 = v mod 16777216"
proof -
  have a: "v mod 4096 = 64 * (v div 64 mod 64) + v mod 64"
    using mod_mult2_eq [of v 64 64] by simp
  have b: "v mod 262144 = 4096 * (v div 4096 mod 64) + v mod 4096"
    using mod_mult2_eq [of v 4096 64] by simp
  have c: "v mod 16777216 = 262144 * (v div 262144 mod 64) + v mod 262144"
    using mod_mult2_eq [of v 262144 64] by simp
  show ?thesis unfolding c b a by simp
qed

lemma divmod256:
  fixes x y :: nat
  assumes "y < 256"
  shows "(x * 256 + y) mod 256 = y" and "(x * 256 + y) div 256 = x"
  using assms by simp_all

lemma bytes3:
  fixes a b c :: nat
  assumes "a < 256" "b < 256" "c < 256"
  shows "(a * 65536 + b * 256 + c) mod 16777216 = a * 65536 + b * 256 + c"
    and "(a * 65536 + b * 256 + c) div 65536 mod 256 = a"
    and "(a * 65536 + b * 256 + c) div 256 mod 256 = b"
    and "(a * 65536 + b * 256 + c) mod 256 = c"
proof -
  have v: "a * 65536 + b * 256 + c = (a * 256 + b) * 256 + c" by simp
  have d1: "(a * 65536 + b * 256 + c) div 256 = a * 256 + b"
    by (simp only: v divmod256 [OF assms(3)])
  show "(a * 65536 + b * 256 + c) mod 256 = c"
    by (simp only: v divmod256 [OF assms(3)])
  show "(a * 65536 + b * 256 + c) div 256 mod 256 = b"
    by (simp only: d1 divmod256 [OF assms(2)])
  have "(a * 65536 + b * 256 + c) div 65536 = (a * 65536 + b * 256 + c) div 256 div 256"
    using div_mult2_eq [of "a * 65536 + b * 256 + c" 256 256] by simp
  also have "\<dots> = a" by (simp only: d1 divmod256 [OF assms(2)])
  finally have d2: "(a * 65536 + b * 256 + c) div 65536 = a" .
  show "(a * 65536 + b * 256 + c) div 65536 mod 256 = a"
    unfolding d2 using assms(1) by simp
  have "a * 65536 + b * 256 + c < 16777216" using assms by linarith
  then show "(a * 65536 + b * 256 + c) mod 16777216 = a * 65536 + b * 256 + c" by simp
qed

lemma decode_group:
  fixes b0 b1 b2 :: char
  defines "v \<equiv> of_char b0 * 65536 + of_char b1 * 256 + (of_char b2 :: nat)"
  shows "(v div 262144) mod 64 * 262144 + (v div 4096) mod 64 * 4096 + (v div 64) mod 64 * 64
           + v mod 64 = v"
    and "byteOf (v div 65536) = b0" and "byteOf (v div 256) = b1" and "byteOf v = b2"
  unfolding v_def byteOf_def regroup
  by (simp_all only: bytes3 [OF of_char_lt of_char_lt of_char_lt] char_of_char)


lemma EncodeToString_Nil_iff: "EncodeToString bs = [] \<longleftrightarrow> bs = []"
  by (induction bs rule: EncodeToString.induct) (simp_all add: Let_def)

lemma decode_quad_last:
  "dec6 c0 = Some v0 \<Longrightarrow> dec6 c1 = Some v1 \<Longrightarrow> dec6 c2 = Some v2 \<Longrightarrow> dec6 c3 = Some v3 \<Longrightarrow>
   c2 \<noteq> CHR ''='' \<Longrightarrow> c3 \<noteq> CHR ''='' \<Longrightarrow>
   DecodeString [c0, c1, c2, c3] =
     (let val = v0 * 262144 + v1 * 4096 + v2 * 64 + v3
      in Some [byteOf (val div 65536), byteOf (val div 256), byteOf val])"
  by simp

lemma decode_quad_more:
  "dec6 c0 = Some v0 \<Longrightarrow> dec6 c1 = Some v1 \<Longrightarrow> dec6 c2 = Some v2 \<Longrightarrow> dec6 c3 = Some v3 \<Longrightarrow>
   rest \<noteq> [] \<Longrightarrow>
   DecodeString (c0 # c1 # c2 # c3 # rest) =
     (let val = v0 * 262144 + v1 * 4096 + v2 * 64 + v3
      in map_option (\<lambda>bs. byteOf (val div 65536) # byteOf (val div 256) # byteOf val # bs)
           (DecodeString rest))"
  by (cases rest) simp_all

lemma pad_facts:
  fixes a b :: nat
  shows "(a * 65536) mod 64 = 0" and "(a * 65536) div 64 mod 64 = 0"
    and "(a * 65536) div 4096 mod 64 mod 16 = 0"
    and "(a * 65536 + b * 256) mod 64 = 0"
    and "(a * 65536 + b * 256) div 64 mod 64 mod 4 = 0"
proof -
  show "(a * 65536) mod 64 = 0" by simp
  have "(a * 65536) div 64 = a * 1024" by simp
  then show "(a * 65536) div 64 mod 64 = 0" by simp
  have "(a * 65536) div 4096 = a * 16" by simp
  then show "(a * 65536) div 4096 mod 64 mod 16 = 0" by (simp add: mod_mod_cancel)
  show "(a * 65536 + b * 256) mod 64 = 0" by simp
  have "(a * 65536 + b * 256) div 64 = (a * 256 + b) * 4" by simp
  then show "(a * 65536 + b * 256) div 64 mod 64 mod 4 = 0" by (simp add: mod_mod_cancel)
qed

lemma decode_encode_1: "DecodeString (EncodeToString [b0]) = Some [b0]"
proof -
  define a :: nat where "a = of_char b0"
  have a: "a < 256" by (simp add: a_def)
  have f: "a * 65536 mod 16777216 = a * 65536" "a * 65536 div 65536 mod 256 = a"
    using bytes3 [OF a, of 0 0] by simp_all
  have "(a * 65536 div 262144) mod 64 * 262144 + (a * 65536 div 4096) mod 64 * 4096
          + (a * 65536 div 64) mod 64 * 64 + a * 65536 mod 64 = a * 65536"
    by (simp only: regroup f)
  then have r: "(a * 65536 div 262144) mod 64 * 262144 + (a * 65536 div 4096) mod 64 * 4096
          = a * 65536"
    by (simp only: pad_facts mult_zero_left add_0_right)
  have b: "byteOf (a * 65536 div 65536) = b0"
    by (simp only: byteOf_def f) (simp add: a_def)
  have "DecodeString (EncodeToString [b0])
      = (if (a * 65536 div 4096) mod 64 mod 16 = 0
         then Some [byteOf (((a * 65536 div 262144) mod 64 * 262144
                    + (a * 65536 div 4096) mod 64 * 4096) div 65536)]
         else None)"
    by (simp add: Let_def dec6_enc6 a_def del: mult_numeral_left_semiring_numeral)
  then show ?thesis by (simp only: r pad_facts b simp_thms if_True)
qed

lemma decode_encode_2: "DecodeString (EncodeToString [b0, b1]) = Some [b0, b1]"
proof -
  define a :: nat where "a = of_char b0"
  define b :: nat where "b = of_char b1"
  define v :: nat where "v = a * 65536 + b * 256"
  have a: "a < 256" and b: "b < 256" by (simp_all add: a_def b_def)
  have f: "v mod 16777216 = v" "v div 65536 mod 256 = a" "v div 256 mod 256 = b"
    using bytes3 [OF a b, of 0] by (simp_all add: v_def)
  have "(v div 262144) mod 64 * 262144 + (v div 4096) mod 64 * 4096
          + (v div 64) mod 64 * 64 + v mod 64 = v"
    by (simp only: regroup f)
  then have r: "(v div 262144) mod 64 * 262144 + (v div 4096) mod 64 * 4096
          + (v div 64) mod 64 * 64 = v"
    by (simp only: v_def pad_facts add_0_right)
  have z: "v div 64 mod 64 mod 4 = 0" by (simp only: v_def pad_facts)
  have bb: "byteOf (v div 65536) = b0" "byteOf (v div 256) = b1"
    by (simp_all only: byteOf_def f) (simp_all add: a_def b_def)
  have "DecodeString (EncodeToString [b0, b1])
      = (if v div 64 mod 64 mod 4 = 0
         then (let val = (v div 262144) mod 64 * 262144 + (v div 4096) mod 64 * 4096
                  + (v div 64) mod 64 * 64
               in Some [byteOf (val div 65536), byteOf (val div 256)])
         else None)"
    by (simp add: Let_def dec6_enc6 enc6_not_pad a_def b_def v_def
        del: mult_numeral_left_semiring_numeral)
  then show ?thesis by (simp only: r z bb simp_thms if_True Let_def)
qed

lemma decode_encode_3:
  "DecodeString (EncodeToString (b0 # b1 # b2 # rest))
     = map_option (\<lambda>bs. b0 # b1 # b2 # bs) (DecodeString (EncodeToString rest))"
proof -
  let ?v = "of_char b0 * 65536 + of_char b1 * 256 + (of_char b2 :: nat)"
  note g = decode_group [of b0 b1 b2]
  show ?thesis
  proof (cases "rest = []")
    case True
    then show ?thesis
      using decode_quad_last [OF dec6_enc6 dec6_enc6 dec6_enc6 dec6_enc6 enc6_not_pad enc6_not_pad,
          of "?v div 262144" "?v div 4096" "?v div 64" ?v]
      by (simp add: Let_def g)
  next
    case False
    then have "EncodeToString rest \<noteq> []" by (simp add: EncodeToString_Nil_iff)
    from decode_quad_more [OF dec6_enc6 dec6_enc6 dec6_enc6 dec6_enc6 this,
          of "?v div 262144" "?v div 4096" "?v div 64" ?v]
    show ?thesis by (simp add: Let_def g)
  qed
qed

lemma DecodeString_EncodeToString: "DecodeString (EncodeToString bs) = Some bs"
proof (induction bs rule: EncodeToString.induct)
  case 1
  show ?case by simp
next
  case (2 b0)
  show ?case by (rule decode_encode_1)
next
  case (3 b0 b1)
  show ?case by (rule decode_encode_2)
next
  case (4 b0 b1 b2 rest)
  then show ?case by (simp only: decode_encode_3) simp
qed

lemma set_EncodeToString: "set (EncodeToString bs) \<subseteq> set encodeStd \<union> {CHR ''=''}"
  by (induction bs rule: EncodeToString.induct) (simp_all add: Let_def enc6_in)

lemma length_EncodeToString: "length (EncodeToString bs) = 4 * ((length bs + 2) div 3)"
proof (induction bs rule: EncodeToString.induct)
  case (4 b0 b1 b2 rest)
  have "4 + 4 * ((length rest + 2) div 3) = 4 * ((length rest + 5) div 3)" by presburger
  with 4 show ?case by (simp add: Let_def add.commute)
qed (simp_all add: Let_def)

lemma firstVal_setFirstVal:
  "firstVal k attrs \<noteq> [] \<Longrightarrow> firstVal k (setFirstVal k v attrs) = v"
  by (induction attrs) auto

lemma embedFont_success:
  assumes "length url \<ge> 2"
    and "files w (Join (baseDir config) (url ! 1)) = Some B"
    and "fontMimeTypes (ToLower (Ext (url ! 1))) = Some M"
  shows "embedFont config url css w
     = (Replace css (url ! 1) (dataURL M (EncodeToString B)),
        w\<lparr>reads := reads w @ [Join (baseDir config) (url ! 1)]\<rparr>)"
  using assms by (simp add: embedFont_def ReadFile_def Let_def)

lemma embedImage_success:
  assumes "firstVal ''src'' (Attr n) = S" and "S \<noteq> []" and "\<not> processed config S"
    and "files w (imgPath config S) = Some B"
  shows "embedImage config n w
     = ((config\<lparr>processedURLs := (processedURLs config)(imgPath config S \<mapsto> True)\<rparr>,
         Node (Type n) (Data n)
           (setFirstVal ''src'' (dataURL (imgMime w (imgPath config S)) (EncodeToString B)) (Attr n))
           (Children n)),
        w\<lparr>reads := reads w @ [imgPath config S]\<rparr>)"
  using assms by (simp add: embedImage_def ReadFile_def Let_def imgPath_def imgMime_def)

text \<open>
  Claim C5. The reference string built for an asset with bytes \<open>B\<close> and MIME type \<open>M\<close>
  is \<^verbatim>\<open>data:\<close>, \<open>M\<close>, \<^verbatim>\<open>;base64,\<close> and the payload \<open>EncodeToString B\<close>. The
  payload decodes to \<open>B\<close>, consists of characters of the base64 alphabet and the
  padding character only (so it has no line break), and has four characters for every
  three bytes, the last group padded. That string is what \<^verbatim>\<open>embedCSS\<close> substitutes
  for a font path whose file it read and whose extension is in \<^verbatim>\<open>fontMimeTypes\<close>, and
  what \<^verbatim>\<open>embedImage\<close> leaves in the first \<^verbatim>\<open>src\<close> attribute of an image it read.
\<close>

theorem data_uri:
  "dataURL M (EncodeToString B) = ''data:'' @ M @ '';base64,'' @ EncodeToString B
   \<and> DecodeString (EncodeToString B) = Some B
   \<and> set (EncodeToString B) \<subseteq> set encodeStd \<union> {CHR ''=''}
   \<and> length (EncodeToString B) = 4 * ((length B + 2) div 3)
   \<and> (length url \<ge> 2 \<and> files w (Join (baseDir config) (url ! 1)) = Some B
        \<and> fontMimeTypes (ToLower (Ext (url ! 1))) = Some M
      \<longrightarrow> fst (embedFont config url css w) = Replace css (url ! 1) (dataURL M (EncodeToString B)))
   \<and> (firstVal ''src'' (Attr n) \<noteq> [] \<and> \<not> processed config (firstVal ''src'' (Attr n))
        \<and> files w (imgPath config (firstVal ''src'' (Attr n))) = Some B
        \<and> imgMime w (imgPath config (firstVal ''src'' (Attr n))) = M
      \<longrightarrow> firstVal ''src'' (Attr (snd (fst (embedImage config n w))))
            = dataURL M (EncodeToString B))"
proof (intro conjI impI)
  show "dataURL M (EncodeToString B) = ''data:'' @ M @ '';base64,'' @ EncodeToString B"
    by (simp add: dataURL_def)
  show "DecodeString (EncodeToString B) = Some B"
    by (rule DecodeString_EncodeToString)
  show "set (EncodeToString B) \<subseteq> set encodeStd \<union> {CHR ''=''}"
    by (rule set_EncodeToString)
  show "length (EncodeToString B) = 4 * ((length B + 2) div 3)"
    by (rule length_EncodeToString)
next
  assume "2 \<le> length url \<and> files w (Join (baseDir config) (url ! 1)) = Some B
        \<and> fontMimeTypes (ToLower (Ext (url ! 1))) = Some M"
  then show "fst (embedFont config url css w)
      = Replace css (url ! 1) (dataURL M (EncodeToString B))"
    by (simp add: embedFont_success)
next
  assume a: "firstVal ''src'' (Attr n) \<noteq> [] \<and> \<not> processed config (firstVal ''src'' (Attr n))
        \<and> files w (imgPath config (firstVal ''src'' (Attr n))) = Some B
        \<and> imgMime w (imgPath config (firstVal ''src'' (Attr n))) = M"
  then have "embedImage config n w
     = ((config\<lparr>processedURLs := (processedURLs config)(imgPath config (firstVal ''src'' (Attr n)) \<mapsto> True)\<rparr>,
         Node (Type n) (Data n)
           (setFirstVal ''src'' (dataURL M (EncodeToString B)) (Attr n)) (Children n)),
        w\<lparr>reads := reads w @ [imgPath config (firstVal ''src'' (Attr n))]\<rparr>)"
    using embedImage_success [of n "firstVal ''src'' (Attr n)" config w B] by simp
  with a show "firstVal ''src'' (Attr (snd (fst (embedImage config n w))))
            = dataURL M (EncodeToString B)"
    by (simp add: firstVal_setFirstVal)
qed

section \<open>The font-reference rewriter\<close>

subsection \<open>\<^verbatim>\<open>strings.Replace\<close> by the pieces it keeps\<close>










subsection \<open>The matches of the URL pattern\<close>

lemma matchFontUrl_group:
  "matchFontUrl s = Some (n, g) \<Longrightarrow> HasPrefix g ''/_next/'' \<and> 7 < length g"
  by (auto simp: matchFontUrl_def Let_def HasPrefix_def split: if_splits)

lemma fontUrl_group_prefix:
  "url \<in> set (fontUrlFindAll s) \<Longrightarrow>
     length url = 2 \<and> HasPrefix (url ! 1) ''/_next/'' \<and> url ! 1 \<noteq> []"
proof (induction s rule: fontUrlFindAll.induct)
  case 1
  then show ?case by simp
next
  case (2 c s)
  show ?case
  proof (cases "matchFontUrl (c # s)")
    case None
    with "2.IH"(1) "2.prems" show ?thesis by simp
  next
    case (Some ng)
    obtain n g where ng: "ng = (n, g)" by (cases ng)
    from matchFontUrl_group [of "c # s" n g] Some ng
    have g: "HasPrefix g ''/_next/''" "7 < length g" by simp_all
    from "2.prems" Some ng have "url = [take n (c # s), g] \<or> url \<in> set (fontUrlFindAll (drop (n - 1) s))"
      by simp
    then show ?thesis
    proof
      assume "url = [take n (c # s), g]"
      with g show ?thesis by auto
    next
      assume "url \<in> set (fontUrlFindAll (drop (n - 1) s))"
      with "2.IH"(2) [OF Some ng [symmetric]] show ?thesis by simp
    qed
  qed
qed


subsection \<open>The files the rewriter reads\<close>

lemma embedFont_reads:
  "2 \<le> length url \<Longrightarrow>
     reads (snd (embedFont config url css w)) = reads w @ [Join (baseDir config) (url ! 1)]"
  by (simp add: embedFont_def ReadFile_def logWarning_def Let_def split: option.splits)

lemma urlsLoop_reads:
  "\<forall>url \<in> set urls. 2 \<le> length url \<Longrightarrow>
     reads (snd (urlsLoop config urls css w))
       = reads w @ map (\<lambda>url. Join (baseDir config) (url ! 1)) urls"
proof (induction urls arbitrary: css w)
  case Nil
  then show ?case by simp
next
  case (Cons url urls)
  obtain c1 w1 where e: "embedFont config url css w = (c1, w1)"
    by (cases "embedFont config url css w")
  have "reads w1 = reads w @ [Join (baseDir config) (url ! 1)]"
    using embedFont_reads [of url config css w] Cons.prems e by simp
  with Cons e show ?case by simp
qed

lemma fontFacesLoop_reads:
  "reads (snd (fontFacesLoop config ffs css w))
     = reads w @ map (\<lambda>url. Join (baseDir config) (url ! 1)) (concat (map fontUrlFindAll ffs))"
proof (induction ffs arbitrary: css w)
  case Nil
  then show ?case by simp
next
  case (Cons ff ffs)
  obtain c1 w1 where e: "urlsLoop config (fontUrlFindAll ff) css w = (c1, w1)"
    by (cases "urlsLoop config (fontUrlFindAll ff) css w")
  have "\<forall>url \<in> set (fontUrlFindAll ff). 2 \<le> length url"
    using fontUrl_group_prefix by fastforce
  from urlsLoop_reads [OF this, of config css w] e
  have "reads w1 = reads w @ map (\<lambda>url. Join (baseDir config) (url ! 1)) (fontUrlFindAll ff)"
    by simp
  with Cons e show ?case by simp
qed

lemma rewriteFontFaces_reads:
  "reads (snd (rewriteFontFaces config css w))
     = reads w @ map (\<lambda>url. Join (baseDir config) (url ! 1))
         (concat (map fontUrlFindAll (fontFaceFindAll css)))"
  by (simp add: rewriteFontFaces_def fontFacesLoop_reads)

subsection \<open>One font reference\<close>


subsection \<open>The text of the style element\<close>

text \<open>
  Claim C3, as amended. For a link with a non-empty \<^verbatim>\<open>href\<close> whose file is read with
  the text \<open>cssContent\<close>, \<^verbatim>\<open>embedCSS\<close> of \<^verbatim>\<open>main.go\<close> puts in the link's place a
  style element whose single child is the text node with the rewritten CSS, the result of
  the font-reference rewriter on \<open>cssContent\<close>; the rewriter reads, in order, the path of
  every match of the URL pattern in every \<^verbatim>\<open>@font-face\<close> block, joined to the same
  base directory. \<^verbatim>\<open>embedCSS\<close> of \<^verbatim>\<open>part_001\<close> has no rewriter: the text node holds
  \<open>cssContent\<close> as read, and no font file is read.
\<close>

theorem embedCSS_rewrites:
  assumes "firstVal ''href'' (Attr n) \<noteq> []"
    and "files w (cssPath config n) = Some cssContent"
  shows "(\<exists>w'. embedCSS config (Some (l, r)) n w
            = Inr (Detached (l @ [styleNode (fst (rewriteFontFaces config cssContent
                     (w\<lparr>reads := reads w @ [cssPath config n]\<rparr>)))]) r, w')
          \<and> reads w' = reads w @ [cssPath config n]
               @ map (\<lambda>url. Join (baseDir config) (url ! 1))
                   (concat (map fontUrlFindAll (fontFaceFindAll cssContent))))
     \<and> Children (styleNode css) = [Node TextNode css [] []]
     \<and> embedCSS_part_001 config (Some (l, r)) n w
            = Inr (Detached (l @ [styleNode cssContent]) r,
                   w\<lparr>reads := reads w @ [cssPath config n]\<rparr>)"
proof (intro conjI)
  show "\<exists>w'. embedCSS config (Some (l, r)) n w
            = Inr (Detached (l @ [styleNode (fst (rewriteFontFaces config cssContent
                     (w\<lparr>reads := reads w @ [cssPath config n]\<rparr>)))]) r, w')
          \<and> reads w' = reads w @ [cssPath config n]
               @ map (\<lambda>url. Join (baseDir config) (url ! 1))
                   (concat (map fontUrlFindAll (fontFaceFindAll cssContent)))"
    using assms by (simp add: embedCSS_cases rewriteFontFaces_reads)
  show "Children (styleNode css) = [Node TextNode css [] []]"
    by (simp add: styleNode_def)
  show "embedCSS_part_001 config (Some (l, r)) n w
            = Inr (Detached (l @ [styleNode cssContent]) r,
                   w\<lparr>reads := reads w @ [cssPath config n]\<rparr>)"
    using assms
    by (simp add: embedCSS_part_001_def cssPath_def Let_def ReadFile_def replaceNode_Some)
qed

subsection \<open>The examples, evaluated\<close>

lemma ex_matches: "fontUrlFindAll exFontFace = [exUrl]"
  by code_simp

lemma ex_blocks: "fontFaceFindAll exCss = [exFontFace]"
  by code_simp

lemma ex_font_file: "files exWorld (Join (baseDir exConfig) (exUrl ! 1)) = Some ''abc''"
  by code_simp

lemma ex_font_mime: "fontMimeTypes (ToLower (Ext (exUrl ! 1))) = Some ''font/woff2''"
  by code_simp

lemma ex_font_uri:
  "dataURL ''font/woff2'' (EncodeToString ''abc'') = ''data:font/woff2;base64,YWJj''"
  by (simp add: dataURL_def enc6_def encodeStd_def)

lemma ex_img_uri:
  "dataURL ''image/png'' (EncodeToString ''PNG'') = ''data:image/png;base64,UE5H''"
  by (simp add: dataURL_def enc6_def encodeStd_def)

lemma ex_replace:
  "Replace exCss (exUrl ! 1) ''data:font/woff2;base64,YWJj'' = exRewritten"
  by code_simp

lemma ex_differs: "exRewritten \<noteq> exCss"
  by code_simp

lemma ex_css_file:
  "firstVal ''href'' (Attr exLink) \<noteq> []"
  "files exWorld (cssPath exConfig exLink) = Some exCss"
  "cssPath exConfig exLink = ''style.css''"
  by code_simp+

lemma ex_img:
  "firstVal ''src'' (Attr (exImgNext alt)) = ''/_next/a.png''"
  "imgPath exConfig ''/_next/a.png'' = ''site/_next/a.png''"
  "files exWorld ''site/_next/a.png'' = Some ''PNG''"
  "imgMime exWorld ''site/_next/a.png'' = ''image/png''"
  "\<not> processed exConfig ''/_next/a.png''"
  by (simp add: exImgNext_def attr_def, code_simp+)

lemma ex_rewriter:
  "fst (rewriteFontFaces exConfig exCss w) = exRewritten" if "files w = files exWorld"
proof -
  have "length exUrl \<ge> 2" by (simp add: exUrl_def)
  moreover have "files w (Join (baseDir exConfig) (exUrl ! 1)) = Some ''abc''"
    using that ex_font_file by simp
  ultimately have "embedFont exConfig exUrl exCss w
     = (Replace exCss (exUrl ! 1) (dataURL ''font/woff2'' (EncodeToString ''abc'')),
        w\<lparr>reads := reads w @ [Join (baseDir exConfig) (exUrl ! 1)]\<rparr>)"
    using ex_font_mime by (rule embedFont_success)
  then have "fst (embedFont exConfig exUrl exCss w) = exRewritten"
    by (simp only: fst_conv ex_font_uri ex_replace)
  then show ?thesis
    by (auto simp: rewriteFontFaces_def ex_blocks ex_matches split: prod.splits)
qed

subsection \<open>The rewriter and the data URI on the examples\<close>


theorem data_uri_witness:
  "DecodeString (EncodeToString ''abc'') = Some ''abc''
   \<and> dataURL ''font/woff2'' (EncodeToString ''abc'') = ''data:font/woff2;base64,YWJj''
   \<and> fst (embedFont exConfig exUrl exCss exWorld)
       = Replace exCss (exUrl ! 1) (dataURL ''font/woff2'' (EncodeToString ''abc''))
   \<and> DecodeString (EncodeToString ''PNG'') = Some ''PNG''
   \<and> dataURL ''image/png'' (EncodeToString ''PNG'') = ''data:image/png;base64,UE5H''
   \<and> firstVal ''src'' (Attr (snd (fst (embedImage exConfig (exImgNext ''a'') exWorld))))
       = dataURL ''image/png'' (EncodeToString ''PNG'')"
proof -
  note f = data_uri [of "''font/woff2''" "''abc''" exUrl exWorld exConfig exCss "exImgNext ''a''"]
  note i = data_uri [of "''image/png''" "''PNG''" exUrl exWorld exConfig exCss "exImgNext ''a''"]
  have l: "2 \<le> length exUrl" by (simp add: exUrl_def)
  have a: "DecodeString (EncodeToString ''abc'') = Some ''abc''"
    "fst (embedFont exConfig exUrl exCss exWorld)
       = Replace exCss (exUrl ! 1) (dataURL ''font/woff2'' (EncodeToString ''abc''))"
    using f l ex_font_file ex_font_mime by blast+
  have b: "DecodeString (EncodeToString ''PNG'') = Some ''PNG''"
    "firstVal ''src'' (Attr (snd (fst (embedImage exConfig (exImgNext ''a'') exWorld))))
       = dataURL ''image/png'' (EncodeToString ''PNG'')"
    using i ex_img(1) [of "''a''"] ex_img(2-5) by (blast, simp)
  show ?thesis by (intro conjI) (rule a b ex_font_uri ex_img_uri)+
qed

theorem embedCSS_rewrites_witness:
  "firstVal ''href'' (Attr exLink) \<noteq> []
   \<and> files exWorld (cssPath exConfig exLink) = Some exCss
   \<and> fst (rewriteFontFaces exConfig exCss
            (exWorld\<lparr>reads := reads exWorld @ [cssPath exConfig exLink]\<rparr>)) = exRewritten
   \<and> (\<exists>w'. embedCSS exConfig (Some ([], [])) exLink exWorld
            = Inr (Detached ([] @ [styleNode (fst (rewriteFontFaces exConfig exCss
                     (exWorld\<lparr>reads := reads exWorld @ [cssPath exConfig exLink]\<rparr>)))]) [], w')
          \<and> reads w' = reads exWorld @ [cssPath exConfig exLink]
               @ map (\<lambda>url. Join (baseDir exConfig) (url ! 1))
                   (concat (map fontUrlFindAll (fontFaceFindAll exCss))))
   \<and> embedCSS_part_001 exConfig (Some ([], [])) exLink exWorld
            = Inr (Detached ([] @ [styleNode exCss]) [],
                   exWorld\<lparr>reads := reads exWorld @ [cssPath exConfig exLink]\<rparr>)"
proof -
  have r: "fst (rewriteFontFaces exConfig exCss
            (exWorld\<lparr>reads := reads exWorld @ [cssPath exConfig exLink]\<rparr>)) = exRewritten"
    by (rule ex_rewriter) simp
  from embedCSS_rewrites [OF ex_css_file(1,2), of "[]" "[]"] r ex_css_file(1,2)
  show ?thesis by blast
qed

theorem raw_css_counterexample:
  "firstVal ''href'' (Attr exLink) \<noteq> []
   \<and> files exWorld (cssPath exConfig exLink) = Some exCss
   \<and> embedCSS_part_001 exConfig (Some ([], [])) exLink exWorld
        = Inr (Detached [styleNode exCss] [], exWorld\<lparr>reads := [''style.css'']\<rparr>)
   \<and> fst (rewriteFontFaces exConfig exCss (exWorld\<lparr>reads := [''style.css'']\<rparr>)) = exRewritten
   \<and> exRewritten \<noteq> exCss"
proof -
  have "embedCSS_part_001 exConfig (Some ([], [])) exLink exWorld
        = Inr (Detached [styleNode exCss] [], exWorld\<lparr>reads := [''style.css'']\<rparr>)"
    using ex_css_file
    by (simp add: embedCSS_part_001_def cssPath_def Let_def ReadFile_def replaceNode_Some)
      (simp add: exWorld_def)
  moreover have "fst (rewriteFontFaces exConfig exCss (exWorld\<lparr>reads := [''style.css'']\<rparr>))
      = exRewritten"
    by (rule ex_rewriter) simp
  ultimately show ?thesis using ex_css_file(1,2) ex_differs by blast
qed

section \<open>\<^verbatim>\<open>embedImage\<close> and the processed-URL set\<close>

lemma embedImage_skip:
  "firstVal ''src'' (Attr n) = [] \<or> processed config (firstVal ''src'' (Attr n)) \<Longrightarrow>
     embedImage config n w = ((config, n), w)"
  by (auto simp: embedImage_def)

lemma processed_update:
  "processed (config\<lparr>processedURLs := (processedURLs config)(k \<mapsto> True)\<rparr>) k'
     = (k' = k \<or> processed config k')"
  by (simp add: processed_def)

lemma imgPath_update [simp]:
  "imgPath (config\<lparr>processedURLs := m\<rparr>) S = imgPath config S"
  by (simp add: imgPath_def)

text \<open>
  When the path read is the reference itself, the second call finds the reference in the
  set and does nothing: one read, one rewrite.
\<close>

lemma embedImage_dedup:
  assumes "firstVal ''src'' (Attr n) = S" and "firstVal ''src'' (Attr m) = S"
    and "S \<noteq> []" and "\<not> processed config S"
    and "imgPath config S = S" and "files w S = Some B"
  shows "embedImageTwice config n m w
     = ((Node (Type n) (Data n)
           (setFirstVal ''src'' (dataURL (imgMime w S) (EncodeToString B)) (Attr n))
           (Children n), m),
        config\<lparr>processedURLs := (processedURLs config)(S \<mapsto> True)\<rparr>,
        w\<lparr>reads := reads w @ [S]\<rparr>)"
proof -
  have 1: "embedImage config n w
     = ((config\<lparr>processedURLs := (processedURLs config)(S \<mapsto> True)\<rparr>,
         Node (Type n) (Data n)
           (setFirstVal ''src'' (dataURL (imgMime w S) (EncodeToString B)) (Attr n))
           (Children n)),
        w\<lparr>reads := reads w @ [S]\<rparr>)"
    using embedImage_success [OF assms(1,3,4), of w B] assms(5,6) by simp
  have 2: "embedImage (config\<lparr>processedURLs := (processedURLs config)(S \<mapsto> True)\<rparr>) m
       (w\<lparr>reads := reads w @ [S]\<rparr>)
     = ((config\<lparr>processedURLs := (processedURLs config)(S \<mapsto> True)\<rparr>, m),
        w\<lparr>reads := reads w @ [S]\<rparr>)"
    by (rule embedImage_skip) (simp add: assms(2) processed_update)
  show ?thesis by (simp add: embedImageTwice_def 1 2)
qed

lemma embedImage_logo_once:
  "fst (embedImageTwice exConfig (exImgLogo ''a'') (exImgLogo ''b'') exWorld)
       = (Node ElementNode ''img'' [attr ''alt'' ''a'', attr ''src'' ''data:image/png;base64,UE5H''] [],
          exImgLogo ''b'')
   \<and> reads (snd (snd (embedImageTwice exConfig (exImgLogo ''a'') (exImgLogo ''b'') exWorld)))
       = [''logo.png'']"
proof -
  have s: "firstVal ''src'' (Attr (exImgLogo alt)) = ''logo.png''" for alt
    by (simp add: exImgLogo_def attr_def)
  have h: "''logo.png'' \<noteq> ([] :: string)" "\<not> processed exConfig ''logo.png''"
    "imgPath exConfig ''logo.png'' = ''logo.png''" "files exWorld ''logo.png'' = Some ''PNG''"
    "imgMime exWorld ''logo.png'' = ''image/png''"
    by (simp, code_simp+)
  note t = embedImage_dedup [OF s [of "''a''"] s [of "''b''"] h(1-4)]
  show ?thesis
    unfolding t h(5) ex_img_uri
    by (simp add: exWorld_def) (simp add: exImgLogo_def attr_def)
qed

text \<open>
  When the path read differs from the reference, the set holds the path and not the
  reference: the second call reads the file again and rewrites its node.
\<close>

lemma embedImage_joined_twice:
  assumes "firstVal ''src'' (Attr n) = S" and "firstVal ''src'' (Attr m) = S"
    and "S \<noteq> []" and "\<not> processed config S"
    and "imgPath config S \<noteq> S" and "files w (imgPath config S) = Some B"
  shows "embedImageTwice config n m w
     = ((Node (Type n) (Data n)
           (setFirstVal ''src'' (dataURL (imgMime w (imgPath config S)) (EncodeToString B)) (Attr n))
           (Children n),
         Node (Type m) (Data m)
           (setFirstVal ''src'' (dataURL (imgMime w (imgPath config S)) (EncodeToString B)) (Attr m))
           (Children m)),
        config\<lparr>processedURLs := (processedURLs config)(imgPath config S \<mapsto> True)\<rparr>,
        w\<lparr>reads := reads w @ [imgPath config S, imgPath config S]\<rparr>)"
proof -
  let ?P = "imgPath config S"
  let ?c1 = "config\<lparr>processedURLs := (processedURLs config)(?P \<mapsto> True)\<rparr>"
  let ?w1 = "w\<lparr>reads := reads w @ [?P]\<rparr>"
  have 1: "embedImage config n w
     = ((?c1, Node (Type n) (Data n)
           (setFirstVal ''src'' (dataURL (imgMime w ?P) (EncodeToString B)) (Attr n))
           (Children n)), ?w1)"
    by (rule embedImage_success [OF assms(1,3,4,6)])
  have np: "\<not> processed ?c1 S" using assms(4,5) by (simp add: processed_update)
  have f: "files ?w1 (imgPath ?c1 S) = Some B" using assms(6) by simp
  have 2: "embedImage ?c1 m ?w1
     = ((?c1, Node (Type m) (Data m)
           (setFirstVal ''src'' (dataURL (imgMime w ?P) (EncodeToString B)) (Attr m))
           (Children m)), w\<lparr>reads := reads w @ [?P, ?P]\<rparr>)"
    using embedImage_success [OF assms(2,3) np f] by (simp add: imgMime_def)
  show ?thesis by (simp add: embedImageTwice_def 1 2)
qed

text \<open>
  Claim C1 says that the set is keyed by the reference as written, for every reference,
  so that a second call on a node with the same \<^verbatim>\<open>src\<close> reads nothing and rewrites
  nothing. \<^verbatim>\<open>embedImage\<close> looks the reference up as written, but after the join it
  marks the joined path (the variable \<^verbatim>\<open>src\<close> has been overwritten). With the base
  directory \<^verbatim>\<open>site\<close> and two image nodes whose \<^verbatim>\<open>src\<close> is \<^verbatim>\<open>/_next/a.png\<close>, the
  two calls read \<^verbatim>\<open>site/_next/a.png\<close> twice and rewrite both nodes; afterwards the set
  holds \<^verbatim>\<open>site/_next/a.png\<close> and not \<^verbatim>\<open>/_next/a.png\<close>.
\<close>

theorem embedImage_next_twice:
  "firstVal ''src'' (Attr (exImgNext ''a'')) = ''/_next/a.png''
   \<and> firstVal ''src'' (Attr (exImgNext ''b'')) = ''/_next/a.png''
   \<and> fst (embedImageTwice exConfig (exImgNext ''a'') (exImgNext ''b'') exWorld)
       = (Node ElementNode ''img'' [attr ''alt'' ''a'', attr ''src'' ''data:image/png;base64,UE5H''] [],
          Node ElementNode ''img'' [attr ''alt'' ''b'', attr ''src'' ''data:image/png;base64,UE5H''] [])
   \<and> reads (snd (snd (embedImageTwice exConfig (exImgNext ''a'') (exImgNext ''b'') exWorld)))
       = [''site/_next/a.png'', ''site/_next/a.png'']
   \<and> \<not> processed (fst (snd (embedImageTwice exConfig (exImgNext ''a'') (exImgNext ''b'') exWorld)))
         ''/_next/a.png''
   \<and> processed (fst (snd (embedImageTwice exConfig (exImgNext ''a'') (exImgNext ''b'') exWorld)))
         ''site/_next/a.png''"
proof -
  have ne: "''/_next/a.png'' \<noteq> ([] :: string)" "imgPath exConfig ''/_next/a.png'' \<noteq> ''/_next/a.png''"
    "files exWorld (imgPath exConfig ''/_next/a.png'') = Some ''PNG''"
    by (simp_all add: ex_img)
  note t = embedImage_joined_twice [OF ex_img(1) [of "''a''"] ex_img(1) [of "''b''"] ne(1) ex_img(5) ne(2,3)]
  have r: "reads exWorld = []" by (simp add: exWorld_def)
  show ?thesis
    unfolding t ex_img(2,4) ex_img_uri
    by (simp add: ex_img processed_update r) (simp add: exImgNext_def attr_def)
qed

end
